theory Spec2Isabelle
  imports Main
begin

section \<open>The compilation driver of c3c (src/compiler/compiler.c)\<close>

text \<open>
  A shallow embedding of the driver: the global context with its symbol tables, the
  module registry, the staged analysis pipeline, the expansion of source names and the
  scratch buffer. Every function of the C file that is modelled keeps its name. A
  call of \<^verbatim>\<open>exit\<close> or \<^verbatim>\<open>error_exit\<close> ends the process: a function that can reach one
  returns a sum, \<open>Inl\<close> holding how the process ended together with the state it ended
  in, \<open>Inr\<close> the state the function returns with.
\<close>

subsection \<open>Process exit\<close>

text \<open>
  Modelled from the spec: \<^verbatim>\<open>error_exit(fmt, ...)\<close>, a function of a file that is not part of
  the sources, prints its message and leaves with a non-zero status. \<^verbatim>\<open>exit(code)\<close> leaves
  with the status given; \<^verbatim>\<open>EXIT_SUCCESS\<close> is 0 and \<^verbatim>\<open>EXIT_FAILURE\<close> is 1.
  \<open>memory_fault\<close> is the end of a process that writes outside an array: the C
  standard leaves what happens undefined, the process calls neither \<^verbatim>\<open>exit\<close> nor
  \<^verbatim>\<open>error_exit\<close>, and no status of its own is reported.
\<close>

datatype exited = error_exit string | exit_code nat | memory_fault

definition EXIT_SUCCESS :: nat where
  "EXIT_SUCCESS = 0"

definition EXIT_FAILURE :: nat where
  "EXIT_FAILURE = 1"

fun nonzero_exit :: "exited \<Rightarrow> bool" where
  "nonzero_exit (error_exit msg) = True"
| "nonzero_exit (exit_code n) = (n \<noteq> 0)"
| "nonzero_exit memory_fault = False"

subsection \<open>Data model\<close>

type_synonym TokenId = nat

text \<open>A \<^verbatim>\<open>Module*\<close> is the index of the module in the store of allocated modules.\<close>

type_synonym module_ptr = nat

text \<open>
  A \<^verbatim>\<open>Decl*\<close> is the address of a declaration, or the address of the one static
  declaration \<^verbatim>\<open>poisoned_decl\<close> that marks an ambiguous name.
\<close>

datatype decl_ptr = Decl_at nat | poisoned_decl

record Path =
  module :: string
  len :: nat

text \<open>
  A vec of the C code is a list. Where the code only reads the elements and the size, the
  null pointer is the empty vec (\<^verbatim>\<open>vec_size(NULL)\<close> is 0 and \<^verbatim>\<open>vec_add\<close> allocates on the
  first element). \<^verbatim>\<open>TokenId *parameters\<close> is tested as a pointer, so it keeps the
  difference: \<open>None\<close> is the null pointer, \<open>Some ps\<close> a vec that is allocated and
  holds the elements \<open>ps\<close>, which may be none. The stage is the C enumeration value.
\<close>

record Module =
  name :: Path
  stage :: nat
  parameters :: "TokenId list option"
  symbols :: "string \<rightharpoonup> decl_ptr"
  public_symbols :: "string \<rightharpoonup> decl_ptr"

text \<open>
  What \<^verbatim>\<open>compiler_register_public_symbol\<close> reads of a declaration: its own address
  (the value stored in the tables), \<^verbatim>\<open>decl->name\<close> and \<^verbatim>\<open>decl->module->name\<close>.
\<close>

record Decl =
  self :: decl_ptr
  decl_name :: string
  decl_module :: Path

text \<open>
  The global context. An \<^verbatim>\<open>STable\<close> is a map from interned strings to payload pointers
  (\<^verbatim>\<open>stable_get\<close> is the lookup, null when the key is absent; \<^verbatim>\<open>stable_set\<close> the update);
  interned strings are compared by content. \<open>module_heap\<close> is the memory that
  \<^verbatim>\<open>CALLOCS(Module)\<close> allocates from. \<open>scratch_buffer\<close> is the character array of
  the context, \<open>scratch_buffer_len\<close> the number of characters in use.
\<close>

record GlobalContext =
  modules :: "string \<rightharpoonup> module_ptr"
  module_list :: "module_ptr list"
  generic_module_list :: "module_ptr list"
  global_symbols :: "string \<rightharpoonup> decl_ptr"
  qualified_symbols :: "string \<rightharpoonup> (string \<rightharpoonup> decl_ptr)"
  sources :: "string list"
  lib_dir :: "string option"
  std_module :: Module
  errors_found :: nat
  warnings_found :: nat
  in_panic_mode :: bool
  scratch_buffer :: string
  scratch_buffer_len :: nat
  module_heap :: "Module list"

text \<open>The process left in state \<open>'s\<close>, or the function returned \<open>'a\<close>.\<close>

type_synonym ('s, 'a) result = "(exited \<times> 's) + 'a"

subsection \<open>Scratch buffer\<close>

text \<open>
  \<^verbatim>\<open>MAX_STRING_BUFFER\<close>, the declared size of the array \<^verbatim>\<open>scratch_buffer\<close>, is a constant of
  a header that is not part of the sources: the functions take it as their first
  argument (it is positive, so \<open>MAX_STRING_BUFFER - 1\<close> is the same number in C and
  here). The lengths are of type \<^verbatim>\<open>size_t\<close>, an unsigned type of 64 bits on the hosts
  the compiler is built for: the sum that is compared with \<open>MAX_STRING_BUFFER - 1\<close> and
  the new length are computed modulo \<open>2 ^ 64\<close>. The declaration of
  \<open>scratch_buffer_len\<close> is in the same header; the field is taken to be as wide.
\<close>

definition SIZE_MAX :: nat where
  "SIZE_MAX = 2 ^ 64 - 1"

definition size_t_add :: "nat \<Rightarrow> nat \<Rightarrow> nat" where
  "size_t_add a b = (a + b) mod (SIZE_MAX + 1)"

definition NUL :: char where
  "NUL = CHR 0x00"

text \<open>\<^verbatim>\<open>memcpy(dst + off, src, n)\<close>: \<open>dst[off + k] = src[k]\<close> for every \<open>k < n\<close>.\<close>

fun memcpy :: "string \<Rightarrow> nat \<Rightarrow> string \<Rightarrow> nat \<Rightarrow> string" where
  "memcpy dst off src 0 = dst"
| "memcpy dst off src (Suc n) = (memcpy dst off src n)[off + n := src ! n]"

text \<open>The characters at a \<^verbatim>\<open>char*\<close> up to the first NUL, and their number.\<close>

definition c_string :: "string \<Rightarrow> string" where
  "c_string mem = takeWhile (\<lambda>c. c \<noteq> NUL) mem"

definition strlen :: "string \<Rightarrow> nat" where
  "strlen mem = length (c_string mem)"

definition scratch_buffer_clear :: "GlobalContext \<Rightarrow> GlobalContext" where
  "scratch_buffer_clear g = g\<lparr>scratch_buffer_len := 0\<rparr>"

text \<open>
  \<^verbatim>\<open>scratch_buffer_append_len\<close>. Once the test has passed, \<^verbatim>\<open>memcpy\<close> writes \<open>len\<close>
  characters from index \<open>scratch_buffer_len\<close> on, whatever the size of the array. A copy
  that leaves the array is a \<open>memory_fault\<close>: the state it is reported with has the
  characters written up to the end of the array.
\<close>

definition scratch_buffer_append_len ::
  "nat \<Rightarrow> string \<Rightarrow> nat \<Rightarrow> GlobalContext \<Rightarrow> (GlobalContext, GlobalContext) result" where
  "scratch_buffer_append_len MAX_STRING_BUFFER string n g =
     (if size_t_add n (scratch_buffer_len g) > MAX_STRING_BUFFER - 1
      then Inl (error_exit ''Scratch buffer size (%d chars) exceeded'', g)
      else if scratch_buffer_len g + n \<le> length (scratch_buffer g)
      then Inr (g\<lparr>scratch_buffer := memcpy (scratch_buffer g) (scratch_buffer_len g) string n,
                  scratch_buffer_len := size_t_add (scratch_buffer_len g) n\<rparr>)
      else Inl (memory_fault,
             g\<lparr>scratch_buffer := memcpy (scratch_buffer g) (scratch_buffer_len g) string
                  (length (scratch_buffer g) - scratch_buffer_len g)\<rparr>))"

definition scratch_buffer_append ::
  "nat \<Rightarrow> string \<Rightarrow> GlobalContext \<Rightarrow> (GlobalContext, GlobalContext) result" where
  "scratch_buffer_append MAX_STRING_BUFFER string g =
     scratch_buffer_append_len MAX_STRING_BUFFER string (strlen string) g"

definition scratch_buffer_append_char ::
  "nat \<Rightarrow> char \<Rightarrow> GlobalContext \<Rightarrow> (GlobalContext, GlobalContext) result" where
  "scratch_buffer_append_char MAX_STRING_BUFFER c g =
     (if size_t_add (scratch_buffer_len g) 1 > MAX_STRING_BUFFER - 1
      then Inl (error_exit ''Scratch buffer size (%d chars) exceeded'', g)
      else if scratch_buffer_len g < length (scratch_buffer g)
      then Inr (g\<lparr>scratch_buffer := (scratch_buffer g)[scratch_buffer_len g := c],
                  scratch_buffer_len := size_t_add (scratch_buffer_len g) 1\<rparr>)
      else Inl (memory_fault, g))"

text \<open>
  \<^verbatim>\<open>scratch_buffer_to_string\<close> writes the terminator at index \<open>scratch_buffer_len\<close> without
  a check and returns the address of the array. The model returns the string that
  starts there; a write outside the array, undefined in C, is \<open>None\<close>.
\<close>

definition scratch_buffer_to_string :: "GlobalContext \<Rightarrow> (string \<times> GlobalContext) option" where
  "scratch_buffer_to_string g =
     (if scratch_buffer_len g < length (scratch_buffer g)
      then (let g' = g\<lparr>scratch_buffer := (scratch_buffer g)[scratch_buffer_len g := NUL]\<rparr>
            in Some (c_string (scratch_buffer g'), g'))
      else None)"

text \<open>The operations on the buffer that can return, as one type, to speak of all of them.\<close>

datatype scratch_op =
  Clear | Append string | Append_len string nat | Append_char char

fun scratch_run :: "nat \<Rightarrow> scratch_op \<Rightarrow> GlobalContext \<Rightarrow> (GlobalContext, GlobalContext) result" where
  "scratch_run M Clear g = Inr (scratch_buffer_clear g)"
| "scratch_run M (Append s) g = scratch_buffer_append M s g"
| "scratch_run M (Append_len s n) g = scratch_buffer_append_len M s n g"
| "scratch_run M (Append_char c) g = scratch_buffer_append_char M c g"

definition nul_free :: "GlobalContext \<Rightarrow> bool" where
  "nul_free g = (NUL \<notin> set (take (scratch_buffer_len g) (scratch_buffer g)))"

fun nul_free_payload :: "scratch_op \<Rightarrow> bool" where
  "nul_free_payload Clear = True"
| "nul_free_payload (Append s) = True"
| "nul_free_payload (Append_len s n) = (n \<le> length s \<and> NUL \<notin> set (take n s))"
| "nul_free_payload (Append_char c) = (c \<noteq> NUL)"

subsection \<open>Symbol tables\<close>

text \<open>
  Modelled from the spec: the symbol table of \<^verbatim>\<open>symtab.c\<close>, which is not part of the
  sources. \<open>get(key)\<close> gives the value stored under the key, if any; \<open>set(key, value)\<close>
  stores it, replacing what was there; \<open>init\<close> gives the empty table.
\<close>

definition stable_init :: "'k \<rightharpoonup> 'v" where
  "stable_init = Map.empty"

definition stable_get :: "('k \<rightharpoonup> 'v) \<Rightarrow> 'k \<Rightarrow> 'v option" where
  "stable_get table key = table key"

definition stable_set :: "('k \<rightharpoonup> 'v) \<Rightarrow> 'k \<Rightarrow> 'v \<Rightarrow> ('k \<rightharpoonup> 'v)" where
  "stable_set table key v = table(key \<mapsto> v)"

subsection \<open>Analysis stages\<close>

text \<open>
  Modelled from the spec: the enumeration \<^verbatim>\<open>AnalysisStage\<close> of \<^verbatim>\<open>compiler_internal.h\<close>,
  in the order the spec gives; the C code increments and compares its values as integers.
\<close>

definition ANALYSIS_NOT_BEGUN :: nat where "ANALYSIS_NOT_BEGUN = 0"
definition ANALYSIS_IMPORTS :: nat where "ANALYSIS_IMPORTS = 1"
definition ANALYSIS_REGISTER_GLOBALS :: nat where "ANALYSIS_REGISTER_GLOBALS = 2"
definition ANALYSIS_CONDITIONAL_COMPILATION :: nat where "ANALYSIS_CONDITIONAL_COMPILATION = 3"
definition ANALYSIS_DECLS :: nat where "ANALYSIS_DECLS = 4"
definition ANALYSIS_CT_ASSERT :: nat where "ANALYSIS_CT_ASSERT = 5"
definition ANALYSIS_FUNCTIONS :: nat where "ANALYSIS_FUNCTIONS = 6"
definition ANALYSIS_LAST :: nat where "ANALYSIS_LAST = ANALYSIS_FUNCTIONS"

subsection \<open>Modules\<close>

definition global_context_find_module :: "GlobalContext \<Rightarrow> string \<Rightarrow> module_ptr option" where
  "global_context_find_module g nm = stable_get (modules g) nm"

text \<open>
  \<^verbatim>\<open>CALLOCS(Module)\<close> gives the next free cell of the module store; \<^verbatim>\<open>vec_add\<close> puts its
  element at the end of the vec. \<^verbatim>\<open>if (parameters)\<close> asks whether the pointer is null, not
  whether the vec has elements.
\<close>

definition compiler_find_or_create_module ::
  "Path \<Rightarrow> TokenId list option \<Rightarrow> GlobalContext \<Rightarrow> module_ptr \<times> GlobalContext" where
  "compiler_find_or_create_module module_name params g =
     (case global_context_find_module g (module module_name) of
        Some m \<Rightarrow> (m, g)
      | None \<Rightarrow>
          (let m = length (module_heap g);
               new = \<lparr>name = module_name, stage = ANALYSIS_NOT_BEGUN, parameters = params,
                      symbols = stable_init, public_symbols = Map.empty\<rparr>;
               g1 = g\<lparr>module_heap := module_heap g @ [new]\<rparr>;
               g2 = g1\<lparr>modules := stable_set (modules g1) (module module_name) m\<rparr>
           in if params \<noteq> None
              then (m, g2\<lparr>generic_module_list := generic_module_list g2 @ [m]\<rparr>)
              else (m, g2\<lparr>module_list := module_list g2 @ [m]\<rparr>)))"

text \<open>A sequence of calls, first to last, each with its path and parameters.\<close>

definition find_or_create_all ::
  "(Path \<times> TokenId list option) list \<Rightarrow> GlobalContext \<Rightarrow> GlobalContext" where
  "find_or_create_all calls g =
     fold (\<lambda>call g'. snd (compiler_find_or_create_module (fst call) (snd call) g')) calls g"

subsection \<open>Public symbols\<close>

definition compiler_find_symbol :: "GlobalContext \<Rightarrow> string \<Rightarrow> decl_ptr option" where
  "compiler_find_symbol g s = stable_get (global_symbols g) s"

text \<open>
  \<open>sub_module_space\<close> is the table of the declaration's module inside
  \<open>qualified_symbols\<close>, created and stored when the lookup finds none; the second
  \<^verbatim>\<open>stable_set\<close> writes through the pointer, that is, into the stored table.
\<close>

definition compiler_register_public_symbol :: "Decl \<Rightarrow> GlobalContext \<Rightarrow> GlobalContext" where
  "compiler_register_public_symbol decl g =
     (let prev = stable_get (global_symbols g) (decl_name decl);
          g1 = g\<lparr>global_symbols := stable_set (global_symbols g) (decl_name decl)
                  (if prev \<noteq> None then poisoned_decl else self decl)\<rparr>;
          g2 = (if stable_get (qualified_symbols g1) (module (decl_module decl)) = None
                then g1\<lparr>qualified_symbols :=
                       stable_set (qualified_symbols g1) (module (decl_module decl)) stable_init\<rparr>
                else g1);
          sub_module_space = the (stable_get (qualified_symbols g2) (module (decl_module decl)));
          prev2 = stable_get sub_module_space (decl_name decl)
      in g2\<lparr>qualified_symbols :=
            stable_set (qualified_symbols g2) (module (decl_module decl))
              (stable_set sub_module_space (decl_name decl)
                 (if prev2 \<noteq> None then poisoned_decl else self decl))\<rparr>)"

text \<open>The entry of a name in the table of a module, if the module has a table.\<close>

definition qualified_symbol :: "GlobalContext \<Rightarrow> string \<Rightarrow> string \<Rightarrow> decl_ptr option" where
  "qualified_symbol g mod_name n =
     (case stable_get (qualified_symbols g) mod_name of
        None \<Rightarrow> None
      | Some sub_module_space \<Rightarrow> stable_get sub_module_space n)"

text \<open>A sequence of registrations, first to last.\<close>

definition register_all :: "Decl list \<Rightarrow> GlobalContext \<Rightarrow> GlobalContext" where
  "register_all decls g = fold compiler_register_public_symbol decls g"

text \<open>How often a name, or a name of a module, is registered by a sequence.\<close>

definition registrations :: "string \<Rightarrow> Decl list \<Rightarrow> Decl list" where
  "registrations n decls = filter (\<lambda>d. decl_name d = n) decls"

definition registrations_in :: "string \<Rightarrow> string \<Rightarrow> Decl list \<Rightarrow> Decl list" where
  "registrations_in mod_name n decls =
     filter (\<lambda>d. module (decl_module d) = mod_name \<and> decl_name d = n) decls"

subsection \<open>Arenas and initialisation\<close>

text \<open>
  Modelled from the spec: the arenas of \<^verbatim>\<open>vmem.c\<close> and their allocation functions, which are
  not part of the sources. An indexed arena hands out dense indices in allocation order: it
  is modelled by the number of objects allocated from it, which is the index the next
  allocation returns. \<^verbatim>\<open>vmem_init\<close> gives the empty arena.
\<close>

record Arenas =
  ast_arena :: nat
  expr_arena :: nat
  sourceloc_arena :: nat
  toktype_arena :: nat
  tokdata_arena :: nat
  decl_arena :: nat
  type_info_arena :: nat

definition vmem_init :: "nat \<Rightarrow> nat" where
  "vmem_init size_in_mb = 0"

datatype arena = Ast | Expr | Sourceloc | Toktype | Tokdata | Decls | Type_info

fun arena_calloc :: "arena \<Rightarrow> Arenas \<Rightarrow> nat \<times> Arenas" where
  "arena_calloc Ast a = (ast_arena a, a\<lparr>ast_arena := ast_arena a + 1\<rparr>)"
| "arena_calloc Expr a = (expr_arena a, a\<lparr>expr_arena := expr_arena a + 1\<rparr>)"
| "arena_calloc Sourceloc a = (sourceloc_arena a, a\<lparr>sourceloc_arena := sourceloc_arena a + 1\<rparr>)"
| "arena_calloc Toktype a = (toktype_arena a, a\<lparr>toktype_arena := toktype_arena a + 1\<rparr>)"
| "arena_calloc Tokdata a = (tokdata_arena a, a\<lparr>tokdata_arena := tokdata_arena a + 1\<rparr>)"
| "arena_calloc Decls a = (decl_arena a, a\<lparr>decl_arena := decl_arena a + 1\<rparr>)"
| "arena_calloc Type_info a = (type_info_arena a, a\<lparr>type_info_arena := type_info_arena a + 1\<rparr>)"

definition sourceloc_calloc :: "Arenas \<Rightarrow> nat \<times> Arenas" where
  "sourceloc_calloc = arena_calloc Sourceloc"

definition toktype_calloc :: "Arenas \<Rightarrow> nat \<times> Arenas" where
  "toktype_calloc = arena_calloc Toktype"

definition tokdata_calloc :: "Arenas \<Rightarrow> nat \<times> Arenas" where
  "tokdata_calloc = arena_calloc Tokdata"

text \<open>
  The allocations a client makes after initialisation, in order, with the index each one
  returns.
\<close>

fun allocations :: "arena list \<Rightarrow> Arenas \<Rightarrow> (arena \<times> nat) list" where
  "allocations [] a = []"
| "allocations (r # rs) a = (r, fst (arena_calloc r a)) # allocations rs (snd (arena_calloc r a))"

text \<open>
  \<^verbatim>\<open>compiler_init\<close>. \<open>find_lib_dir\<close> stands for the result of the library search, a
  function that is not part of the sources. The scratch table is left out: nothing in the
  file reads it.
\<close>

definition compiler_init ::
  "string option \<Rightarrow> string option \<Rightarrow> GlobalContext \<Rightarrow> GlobalContext \<times> Arenas" where
  "compiler_init find_lib_dir std_lib_dir g =
     (let g1 = g\<lparr>modules := stable_init, module_list := [], generic_module_list := [],
                 global_symbols := stable_init\<rparr>;
          a = \<lparr>ast_arena = vmem_init (4 * 1024), expr_arena = vmem_init (4 * 1024),
               sourceloc_arena = vmem_init (4 * 1024), toktype_arena = vmem_init (4 * 1024),
               tokdata_arena = vmem_init (4 * 1024), decl_arena = vmem_init 1024,
               type_info_arena = vmem_init 1024\<rparr>;
          a1 = snd (sourceloc_calloc a);
          a2 = snd (toktype_calloc a1);
          a3 = snd (tokdata_calloc a2)
      in (if std_lib_dir \<noteq> None then g1\<lparr>lib_dir := std_lib_dir\<rparr>
          else g1\<lparr>lib_dir := find_lib_dir\<rparr>, a3))"

subsection \<open>The functions the driver calls\<close>

text \<open>
  The analysis passes, the source loader, the parser, the directory scan and the code
  generator are functions of other files, none of them part of the sources: the driver is
  modelled for any such functions, given as a record. A pass receives the module it is to
  analyse and may change the global context in any way. \<open>source_file_load\<close> returns
  whether the file had been loaded before; \<open>parse_file\<close> stands for
  \<^verbatim>\<open>context_create\<close> followed by \<^verbatim>\<open>parse_file\<close>; \<open>file_add_wildcard_files\<close> returns the files
  it adds for a directory path, recursively or not; \<open>llvm_gen\<close> says whether a
  generation context comes back for the module.
\<close>

record externs =
  sema_analysis_pass_process_imports :: "module_ptr \<Rightarrow> GlobalContext \<Rightarrow> GlobalContext"
  sema_analysis_pass_register_globals :: "module_ptr \<Rightarrow> GlobalContext \<Rightarrow> GlobalContext"
  sema_analysis_pass_conditional_compilation :: "module_ptr \<Rightarrow> GlobalContext \<Rightarrow> GlobalContext"
  sema_analysis_pass_decls :: "module_ptr \<Rightarrow> GlobalContext \<Rightarrow> GlobalContext"
  sema_analysis_pass_ct_assert :: "module_ptr \<Rightarrow> GlobalContext \<Rightarrow> GlobalContext"
  sema_analysis_pass_functions :: "module_ptr \<Rightarrow> GlobalContext \<Rightarrow> GlobalContext"
  source_file_load :: "string \<Rightarrow> GlobalContext \<Rightarrow> bool \<times> GlobalContext"
  parse_file :: "string \<Rightarrow> GlobalContext \<Rightarrow> GlobalContext"
  file_add_wildcard_files :: "string \<Rightarrow> bool \<Rightarrow> string list"
  llvm_gen :: "module_ptr \<Rightarrow> GlobalContext \<Rightarrow> bool"

text \<open>What the driver reads of the build target.\<close>

record BuildTarget =
  target_sources :: "string list"
  lex_only :: bool
  parse_only :: bool
  output_headers :: bool

subsection \<open>Source names\<close>

definition invalid_name :: "string \<Rightarrow> exited" where
  "invalid_name nm =
     error_exit (''File names must end with .c3 or they cannot be compiled: '' @ [CHR 0x27] @ nm
       @ [CHR 0x27] @ '' is invalid.'')"

text \<open>
  One turn of the loop of \<^verbatim>\<open>target_expand_source_names\<close>: the entry \<open>nm\<close> with the files
  collected so far. A jump to \<^verbatim>\<open>INVALID_NAME\<close> is the exit on the left.
\<close>

definition expand_source_name :: "externs \<Rightarrow> string \<Rightarrow> string list \<Rightarrow> exited + string list" where
  "expand_source_name E nm files =
     (let name_len = length nm in
      if name_len < 1 then Inl (invalid_name nm)
      else if nm ! (name_len - 1) = CHR ''*'' then
        (if name_len = 1 \<or> nm ! (name_len - 2) = CHR ''/''
         then Inr (files @ file_add_wildcard_files E (take (name_len - 1) nm) False)
         else if nm ! (name_len - 2) \<noteq> CHR ''*'' then Inl (invalid_name nm)
         else if name_len = 2 \<or> nm ! (name_len - 3) = CHR ''/''
         then Inr (files @ file_add_wildcard_files E (take (name_len - 2) nm) True)
         else Inl (invalid_name nm))
      else if name_len < 4 then Inl (invalid_name nm)
      else if drop (name_len - 3) nm \<noteq> ''.c3'' then Inl (invalid_name nm)
      else Inr (files @ [nm]))"

fun expand_source_names :: "externs \<Rightarrow> string list \<Rightarrow> string list \<Rightarrow> exited + string list" where
  "expand_source_names E [] files = Inr files"
| "expand_source_names E (nm # rest) files =
     (case expand_source_name E nm files of
        Inl e \<Rightarrow> Inl e
      | Inr files' \<Rightarrow> expand_source_names E rest files')"

definition target_expand_source_names :: "externs \<Rightarrow> BuildTarget \<Rightarrow> exited + BuildTarget" where
  "target_expand_source_names E target =
     (case expand_source_names E (target_sources target) [] of
        Inl e \<Rightarrow> Inl e
      | Inr files \<Rightarrow> Inr (target\<lparr>target_sources := files\<rparr>))"

text \<open>The shapes of an entry, in the words of the specification.\<close>

definition ends_with :: "string \<Rightarrow> string \<Rightarrow> bool" where
  "ends_with suffix nm = (length suffix \<le> length nm \<and> drop (length nm - length suffix) nm = suffix)"

definition plain_wildcard :: "string \<Rightarrow> bool" where
  "plain_wildcard nm = (nm = ''*'' \<or> ends_with ''/*'' nm)"

definition recursive_wildcard :: "string \<Rightarrow> bool" where
  "recursive_wildcard nm = (nm = ''**'' \<or> ends_with ''/**'' nm)"

text \<open>
  The entries that are accepted, and the files an accepted entry stands for: those of the
  directory named before the stars, or the entry itself.
\<close>

definition accepted_name :: "string \<Rightarrow> bool" where
  "accepted_name nm =
     (plain_wildcard nm \<or> recursive_wildcard nm \<or> (4 \<le> length nm \<and> ends_with ''.c3'' nm))"

definition expansion :: "externs \<Rightarrow> string \<Rightarrow> string list" where
  "expansion E nm =
     (if plain_wildcard nm then file_add_wildcard_files E (butlast nm) False
      else if recursive_wildcard nm then file_add_wildcard_files E (butlast (butlast nm)) True
      else [nm])"

subsection \<open>The analysis pipeline\<close>

text \<open>
  The trace is not part of the C program: it records, in order, the calls the driver makes
  to the passes and to the generators, so that their order can be stated. \<open>Pass m s
  listed errors\<close> is the pass of stage \<open>s\<close> on module \<open>m\<close>; \<open>listed\<close> are the
  modules of \<open>module_list\<close>, in order and each with its stage, when the pass begins
  (after \<^verbatim>\<open>module->stage++\<close>), and \<open>errors\<close> is \<open>errors_found\<close> when it returns.
\<close>

datatype event =
  Pass module_ptr nat "(module_ptr \<times> nat) list" nat
| Header_gen module_ptr
| Llvm_gen module_ptr

type_synonym conf = "GlobalContext \<times> event list"

definition global_context_clear_errors :: "GlobalContext \<Rightarrow> GlobalContext" where
  "global_context_clear_errors g = g\<lparr>in_panic_mode := False, errors_found := 0, warnings_found := 0\<rparr>"

definition halt_on_error :: "conf \<Rightarrow> (conf, conf) result" where
  "halt_on_error c =
     (if errors_found (fst c) > 0 then Inl (exit_code EXIT_FAILURE, c) else Inr c)"

definition module_stage :: "GlobalContext \<Rightarrow> module_ptr \<Rightarrow> nat" where
  "module_stage g m = stage (module_heap g ! m)"

definition listed :: "GlobalContext \<Rightarrow> (module_ptr \<times> nat) list" where
  "listed g = map (\<lambda>m. (m, module_stage g m)) (module_list g)"

text \<open>\<^verbatim>\<open>module->stage++\<close>\<close>

definition stage_incr :: "module_ptr \<Rightarrow> GlobalContext \<Rightarrow> GlobalContext" where
  "stage_incr m g =
     g\<lparr>module_heap := (module_heap g)[m := (module_heap g ! m)\<lparr>stage := stage (module_heap g ! m) + 1\<rparr>]\<rparr>"

text \<open>
  The \<^verbatim>\<open>switch\<close> of \<^verbatim>\<open>sema_analyze_stage\<close>. The case \<^verbatim>\<open>ANALYSIS_NOT_BEGUN\<close> is marked
  unreachable in the C code (the stage has just been incremented); a value without a case
  runs nothing.
\<close>

definition run_pass :: "externs \<Rightarrow> nat \<Rightarrow> module_ptr \<Rightarrow> GlobalContext \<Rightarrow> GlobalContext" where
  "run_pass E s m g =
     (if s = ANALYSIS_IMPORTS then sema_analysis_pass_process_imports E m g
      else if s = ANALYSIS_REGISTER_GLOBALS then sema_analysis_pass_register_globals E m g
      else if s = ANALYSIS_CONDITIONAL_COMPILATION
        then sema_analysis_pass_conditional_compilation E m g
      else if s = ANALYSIS_DECLS then sema_analysis_pass_decls E m g
      else if s = ANALYSIS_CT_ASSERT then sema_analysis_pass_ct_assert E m g
      else if s = ANALYSIS_FUNCTIONS then sema_analysis_pass_functions E m g
      else g)"

text \<open>One turn of the \<^verbatim>\<open>while\<close> loop, up to the test of \<open>errors_found\<close>.\<close>

definition sema_step :: "externs \<Rightarrow> module_ptr \<Rightarrow> conf \<Rightarrow> conf" where
  "sema_step E m c =
     (let g1 = stage_incr m (fst c);
          g2 = run_pass E (module_stage g1 m) m g1
      in (g2, snd c @ [Pass m (module_stage g1 m) (listed g1) (errors_found g2)]))"

text \<open>
  A pass may lower the stage of its module, so the loop need not end: the functions of
  the pipeline are partial, \<open>None\<close> being the run that does not return.
\<close>

partial_function (option) sema_analyze_stage ::
  "externs \<Rightarrow> module_ptr \<Rightarrow> nat \<Rightarrow> conf \<Rightarrow> conf option" where
  "sema_analyze_stage E m target c =
     (if module_stage (fst c) m < target
      then (if errors_found (fst (sema_step E m c)) \<noteq> 0 then Some (sema_step E m c)
            else sema_analyze_stage E m target (sema_step E m c))
      else Some c)"

text \<open>
  The loop of \<^verbatim>\<open>analyze_to_stage\<close> from index \<open>i\<close>; \<^verbatim>\<open>vec_size\<close> is read anew at each
  turn, so a module added during the loop is reached by it.
\<close>

partial_function (option) analyze_modules ::
  "externs \<Rightarrow> nat \<Rightarrow> nat \<Rightarrow> conf \<Rightarrow> conf option" where
  "analyze_modules E target i c =
     (if i < length (module_list (fst c))
      then Option.bind (sema_analyze_stage E (module_list (fst c) ! i) target c)
             (analyze_modules E target (i + 1))
      else Some c)"

definition analyze_to_stage :: "externs \<Rightarrow> nat \<Rightarrow> conf \<Rightarrow> (conf, conf) result option" where
  "analyze_to_stage E target c = map_option halt_on_error (analyze_modules E target 0 c)"

text \<open>
  The loop over the stages of \<^verbatim>\<open>compiler_compile\<close>, from stage \<open>s\<close>:
  \<^verbatim>\<open>for (stage = ANALYSIS_NOT_BEGUN + 1; stage <= ANALYSIS_LAST; stage++)\<close>.
\<close>

partial_function (option) analyze_stages ::
  "externs \<Rightarrow> nat \<Rightarrow> conf \<Rightarrow> (conf, conf) result option" where
  "analyze_stages E s c =
     (if s \<le> ANALYSIS_LAST
      then Option.bind (analyze_to_stage E s c)
             (\<lambda>r. case r of Inl x \<Rightarrow> Some (Inl x) | Inr c' \<Rightarrow> analyze_stages E (s + 1) c')
      else Some (Inr c))"

declare sema_analyze_stage.simps [code]
declare analyze_modules.simps [code]
declare analyze_stages.simps [code]

subsection \<open>The driver\<close>

text \<open>
  Modelled from the spec: the interned keyword that names the standard module, a constant
  of a file that is not part of the sources.
\<close>

definition kw_std :: string where
  "kw_std = ''std''"

text \<open>\<^verbatim>\<open>strformat("%s/std/<file>.c3", lib_dir)\<close> for the six files, in the order of the calls.\<close>

definition std_sources :: "string \<Rightarrow> string list" where
  "std_sources dir =
     [dir @ ''/std/runtime.c3'', dir @ ''/std/builtin.c3'', dir @ ''/std/io.c3'',
      dir @ ''/std/mem.c3'', dir @ ''/std/array.c3'', dir @ ''/std/math.c3'']"

definition add_std_sources :: "GlobalContext \<Rightarrow> GlobalContext" where
  "add_std_sources g =
     (case lib_dir g of
        None \<Rightarrow> g
      | Some dir \<Rightarrow> g\<lparr>sources := sources g @ std_sources dir\<rparr>)"

text \<open>
  The loop over the sources of \<^verbatim>\<open>compiler_compile\<close>: \<^verbatim>\<open>VECEACH\<close> reads the size once, the
  entry at each turn. A context is made, and parsed, for every file not loaded before; the
  contexts are listed by their files.
\<close>

definition load_source ::
  "externs \<Rightarrow> nat \<Rightarrow> string list \<times> GlobalContext \<Rightarrow> string list \<times> GlobalContext" where
  "load_source E i cg =
     (let file = sources (snd cg) ! i;
          r = source_file_load E file (snd cg)
      in if fst r then (fst cg, snd r)
         else (fst cg @ [file], parse_file E file (snd r)))"

definition load_sources :: "externs \<Rightarrow> GlobalContext \<Rightarrow> string list \<times> GlobalContext" where
  "load_sources E g = fold (load_source E) [0..<length (sources g)] ([], g)"

definition init_std_module :: "GlobalContext \<Rightarrow> GlobalContext" where
  "init_std_module g =
     g\<lparr>std_module := \<lparr>name = \<lparr>module = kw_std, len = length kw_std\<rparr>, stage = ANALYSIS_LAST,
                        parameters = None, symbols = stable_init, public_symbols = Map.empty\<rparr>\<rparr>"

text \<open>
  What follows the analysis in \<^verbatim>\<open>compiler_compile\<close>: the headers and a return, or a call of
  \<^verbatim>\<open>llvm_gen\<close> for every module. The code generation on threads and the linking that come
  then are not modelled: they end in \<^verbatim>\<open>exit(EXIT_SUCCESS)\<close>.
\<close>

definition generate :: "externs \<Rightarrow> BuildTarget \<Rightarrow> conf \<Rightarrow> (conf, conf) result" where
  "generate E target c =
     (let mods = module_list (fst c) in
      if output_headers target then Inr (fst c, snd c @ map Header_gen mods)
      else (let gen_contexts = filter (\<lambda>m. llvm_gen E m (fst c)) mods;
                c' = (fst c, snd c @ map Llvm_gen mods)
            in if length gen_contexts = 0 then Inl (error_exit ''No output files found.'', c')
               else Inl (exit_code EXIT_SUCCESS, c')))"

definition compiler_compile ::
  "externs \<Rightarrow> BuildTarget \<Rightarrow> GlobalContext \<Rightarrow> (conf, conf) result option" where
  "compiler_compile E target g =
     (let loaded = load_sources E (add_std_sources (global_context_clear_errors g));
          contexts = fst loaded;
          g1 = init_std_module (snd loaded);
          source_count = length contexts
      in if source_count = 0 then Some (Inl (error_exit ''No source files to compile.'', (g1, [])))
         else Option.bind (analyze_stages E (ANALYSIS_NOT_BEGUN + 1) (g1, []))
                (\<lambda>r. case r of Inl x \<Rightarrow> Some (Inl x) | Inr c \<Rightarrow> Some (generate E target c)))"

text \<open>
  \<^verbatim>\<open>compiler_lex\<close> and \<^verbatim>\<open>compiler_parse\<close> load every source, print, and leave with
  \<^verbatim>\<open>EXIT_SUCCESS\<close>.
\<close>

definition compiler_lex :: "externs \<Rightarrow> GlobalContext \<Rightarrow> (conf, conf) result" where
  "compiler_lex E g =
     Inl (exit_code EXIT_SUCCESS,
       (fold (\<lambda>i g'. snd (source_file_load E (sources g' ! i) g')) [0..<length (sources g)] g, []))"

definition compiler_parse :: "externs \<Rightarrow> GlobalContext \<Rightarrow> (conf, conf) result" where
  "compiler_parse E g =
     Inl (exit_code EXIT_SUCCESS,
       (fold (\<lambda>i g'. let r = source_file_load E (sources g' ! i) g'
                     in if fst r then snd r
                        else parse_file E (sources g' ! i) (global_context_clear_errors (snd r)))
          [0..<length (sources g)] g, []))"

text \<open>
  \<^verbatim>\<open>compile\<close>. The global list of sources is set from the target before the target's names
  are expanded. \<^verbatim>\<open>symtab_init\<close> and \<^verbatim>\<open>target_setup\<close> touch nothing that is modelled.
\<close>

definition compile :: "externs \<Rightarrow> BuildTarget \<Rightarrow> GlobalContext \<Rightarrow> (conf, conf) result option" where
  "compile E active_target g =
     (let g1 = g\<lparr>sources := target_sources active_target\<rparr> in
      case target_expand_source_names E active_target of
        Inl e \<Rightarrow> Some (Inl (e, (g1, [])))
      | Inr target \<Rightarrow>
          if length (target_sources target) = 0
          then Some (Inl (error_exit ''No files to compile.'', (g1, [])))
          else if lex_only target then Some (compiler_lex E g1)
          else if parse_only target then Some (compiler_parse E g1)
          else compiler_compile E target g1)"

text \<open>
  The trace and the context a run ends with, and whether it ends in an exit with a
  non-zero status.
\<close>

fun trace_of :: "(conf, conf) result \<Rightarrow> event list" where
  "trace_of (Inl (e, c)) = snd c"
| "trace_of (Inr c) = snd c"

fun context_of :: "(conf, conf) result \<Rightarrow> GlobalContext" where
  "context_of (Inl (e, c)) = fst c"
| "context_of (Inr c) = fst c"

fun exits_nonzero :: "(conf, conf) result \<Rightarrow> bool" where
  "exits_nonzero (Inl (e, c)) = nonzero_exit e"
| "exits_nonzero (Inr c) = False"

subsection \<open>Properties of traces and of passes\<close>

fun is_pass :: "event \<Rightarrow> bool" where
  "is_pass (Pass m s ms errors) = True"
| "is_pass (Header_gen m) = False"
| "is_pass (Llvm_gen m) = False"

fun pass_module :: "event \<Rightarrow> module_ptr" where
  "pass_module (Pass m s ms errors) = m"
| "pass_module (Header_gen m) = m"
| "pass_module (Llvm_gen m) = m"

fun pass_stage :: "event \<Rightarrow> nat" where
  "pass_stage (Pass m s ms errors) = s"
| "pass_stage (Header_gen m) = 0"
| "pass_stage (Llvm_gen m) = 0"

fun pass_listed :: "event \<Rightarrow> (module_ptr \<times> nat) list" where
  "pass_listed (Pass m s ms errors) = ms"
| "pass_listed (Header_gen m) = []"
| "pass_listed (Llvm_gen m) = []"

fun pass_errors :: "event \<Rightarrow> nat" where
  "pass_errors (Pass m s ms errors) = errors"
| "pass_errors (Header_gen m) = 0"
| "pass_errors (Llvm_gen m) = 0"

text \<open>The passes of a trace, in order, each as its module and its stage.\<close>

definition passes :: "event list \<Rightarrow> (module_ptr \<times> nat) list" where
  "passes tr = map (\<lambda>ev. (pass_module ev, pass_stage ev)) (filter is_pass tr)"

text \<open>
  When a module begins stage \<open>s\<close>, every module of the list is at stage \<open>s - 1\<close> at
  least.
\<close>

definition lockstep_event :: "event \<Rightarrow> bool" where
  "lockstep_event ev = list_all (\<lambda>a. pass_stage ev - 1 \<le> snd a) (pass_listed ev)"




text \<open>
  The modules of the list are allocated and listed once. This holds of every context
  that \<^verbatim>\<open>compiler_find_or_create_module\<close> builds.
\<close>

definition wf_modules :: "GlobalContext \<Rightarrow> bool" where
  "wf_modules g =
     (distinct (module_list g) \<and> (\<forall>m \<in> set (module_list g). m < length (module_heap g)))"

text \<open>
  Passes that leave the stages of the listed modules alone and add modules to the list
  only at its end and at \<^verbatim>\<open>ANALYSIS_NOT_BEGUN\<close>, as \<^verbatim>\<open>compiler_find_or_create_module\<close> does.
  That the passes cannot create modules for ever is stated with a number \<open>pending\<close> that
  depends on the registry of names only: a pass that adds \<open>n\<close> modules to the list
  lowers it by \<open>n\<close> at least. For passes that create the modules of a finite set of names
  it is the number of those names that are not yet registered.
\<close>

definition tame_passes :: "externs \<Rightarrow> ((string \<rightharpoonup> module_ptr) \<Rightarrow> nat) \<Rightarrow> bool" where
  "tame_passes E pending =
     (\<forall>s m g. wf_modules g \<longrightarrow>
        wf_modules (run_pass E s m g)
        \<and> (\<exists>new. module_list (run_pass E s m g) = module_list g @ new
              \<and> (\<forall>k \<in> set new. module_stage (run_pass E s m g) k = ANALYSIS_NOT_BEGUN)
              \<and> length new + pending (modules (run_pass E s m g)) \<le> pending (modules g))
        \<and> (\<forall>k \<in> set (module_list g). module_stage (run_pass E s m g) k = module_stage g k))"


text \<open>Passes that report errors and never take one back.\<close>

definition errors_only_grow :: "externs \<Rightarrow> bool" where
  "errors_only_grow E = (\<forall>s m g. errors_found g \<le> errors_found (run_pass E s m g))"

text \<open>
  The context in which the analysis starts, and the translation contexts: what
  \<^verbatim>\<open>compiler_compile\<close> has after the loop over the sources.
\<close>

definition parsed :: "externs \<Rightarrow> GlobalContext \<Rightarrow> GlobalContext" where
  "parsed E g =
     init_std_module (snd (load_sources E (add_std_sources (global_context_clear_errors g))))"

definition contexts :: "externs \<Rightarrow> GlobalContext \<Rightarrow> string list" where
  "contexts E g = fst (load_sources E (add_std_sources (global_context_clear_errors g)))"

definition not_begun :: "GlobalContext \<Rightarrow> bool" where
  "not_begun g = (\<forall>m \<in> set (module_list g). module_stage g m = ANALYSIS_NOT_BEGUN)"

text \<open>
  After a pass has left errors, the trace goes on with one pass for each module that
  follows the module of that pass in the list \<open>ms\<close>, in the order of the list, and with
  nothing else.
\<close>

definition one_pass_each_after :: "module_ptr list \<Rightarrow> event list \<Rightarrow> nat \<Rightarrow> bool" where
  "one_pass_each_after ms tr i =
     (\<exists>p \<in> {..<length ms}. ms ! p = pass_module (tr ! i)
        \<and> list_all is_pass (drop (Suc i) tr)
        \<and> map pass_module (drop (Suc i) tr) = drop (Suc p) ms)"

section \<open>Example inputs\<close>

text \<open>A global context with a scratch buffer of four characters and nothing else.\<close>

definition no_module :: Module where
  "no_module = \<lparr>name = \<lparr>module = [], len = 0\<rparr>, stage = 0, parameters = None,
     symbols = Map.empty, public_symbols = Map.empty\<rparr>"

definition g4 :: GlobalContext where
  "g4 = \<lparr>modules = Map.empty, module_list = [], generic_module_list = [],
     global_symbols = Map.empty, qualified_symbols = Map.empty, sources = [],
     lib_dir = None, std_module = no_module, errors_found = 0, warnings_found = 0,
     in_panic_mode = False, scratch_buffer = [NUL, NUL, NUL, NUL], scratch_buffer_len = 0,
     module_heap = []\<rparr>"

text \<open>
  Functions to run the driver with: every file is new and declares the module named by
  the file name up to its first dot, the passes do nothing, a directory holds the file
  \<open>a.c3\<close> and, below it, \<open>sub/c.c3\<close>, and every module yields code.
\<close>

definition module_of_file :: "string \<Rightarrow> Path" where
  "module_of_file file =
     \<lparr>module = takeWhile (\<lambda>c. c \<noteq> CHR ''.'') file,
      len = length (takeWhile (\<lambda>c. c \<noteq> CHR ''.'') file)\<rparr>"

definition E0 :: externs where
  "E0 = \<lparr>sema_analysis_pass_process_imports = (\<lambda>m g. g),
     sema_analysis_pass_register_globals = (\<lambda>m g. g),
     sema_analysis_pass_conditional_compilation = (\<lambda>m g. g),
     sema_analysis_pass_decls = (\<lambda>m g. g),
     sema_analysis_pass_ct_assert = (\<lambda>m g. g),
     sema_analysis_pass_functions = (\<lambda>m g. g),
     source_file_load = (\<lambda>file g. (False, g)),
     parse_file = (\<lambda>file g. snd (compiler_find_or_create_module (module_of_file file) None g)),
     file_add_wildcard_files =
       (\<lambda>path recursive. if recursive then [path @ ''a.c3'', path @ ''sub/c.c3'']
          else [path @ ''a.c3'']),
     llvm_gen = (\<lambda>m g. True)\<rparr>"


text \<open>The pass that processes the imports reports an error for the first module.\<close>

definition E_err :: externs where
  "E_err = E0\<lparr>sema_analysis_pass_process_imports :=
     (\<lambda>m g. if m = 0 then g\<lparr>errors_found := errors_found g + 1\<rparr> else g)\<rparr>"

definition two_files :: BuildTarget where
  "two_files = \<lparr>target_sources = [''a.c3'', ''b.c3''], lex_only = False, parse_only = False,
     output_headers = False\<rparr>"

text \<open>Two public declarations of the module \<open>m1\<close>.\<close>

definition decl_foo :: Decl where
  "decl_foo = \<lparr>self = Decl_at 1, decl_name = ''foo'', decl_module = \<lparr>module = ''m1'', len = 2\<rparr>\<rparr>"

definition decl_bar :: Decl where
  "decl_bar = \<lparr>self = Decl_at 2, decl_name = ''bar'', decl_module = \<lparr>module = ''m1'', len = 2\<rparr>\<rparr>"



text \<open>
  The pass that registers the globals creates the modules \<open>late\<close> and \<open>later\<close>, and
  the pass that processes the imports reports an error for the third module.
\<close>

definition E_lag :: externs where
  "E_lag = E0\<lparr>sema_analysis_pass_process_imports :=
       (\<lambda>m g. if m = 2 then g\<lparr>errors_found := errors_found g + 1\<rparr> else g),
     sema_analysis_pass_register_globals :=
       (\<lambda>m g. snd (compiler_find_or_create_module \<lparr>module = ''later'', len = 5\<rparr> None
                 (snd (compiler_find_or_create_module \<lparr>module = ''late'', len = 4\<rparr> None g))))\<rparr>"

definition pending_lag :: "(string \<rightharpoonup> module_ptr) \<Rightarrow> nat" where
  "pending_lag table =
     (if table ''late'' = None then 1 else 0) + (if table ''later'' = None then 1 else 0)"

text \<open>The context of a run on the two files, and the trace of the run with \<open>E_late\<close>.\<close>

definition g_ab :: GlobalContext where
  "g_ab = g4\<lparr>sources := [''a.c3'', ''b.c3'']\<rparr>"


section \<open>The scratch buffer\<close>

lemma length_memcpy: "length (memcpy dst off src n) = length dst"
  by (induction n) simp_all

lemma memcpy_content:
  "off + n \<le> length dst \<Longrightarrow> n \<le> length src \<Longrightarrow>
   take (off + n) (memcpy dst off src n) = take off dst @ take n src"
proof (induction n)
  case 0
  then show ?case by simp
next
  case (Suc n)
  then have IH: "take (off + n) (memcpy dst off src n) = take off dst @ take n src"
    by simp
  have "take (Suc (off + n)) ((memcpy dst off src n)[off + n := src ! n])
      = take (off + n) ((memcpy dst off src n)[off + n := src ! n]) @ [src ! n]"
    using Suc.prems by (simp add: take_Suc_conv_app_nth length_memcpy)
  also have "\<dots> = take off dst @ take n src @ [src ! n]"
    using IH by simp
  also have "\<dots> = take off dst @ take (Suc n) src"
    using Suc.prems by (simp add: take_Suc_conv_app_nth)
  finally show ?case by simp
qed

lemma update_NUL_split:
  "k < length buf \<Longrightarrow> buf[k := NUL] = take k buf @ NUL # drop (Suc k) buf"
  by (simp add: upd_conv_take_nth_drop)

lemma c_string_terminated:
  "k < length buf \<Longrightarrow> NUL \<notin> set (take k buf) \<Longrightarrow> c_string (buf[k := NUL]) = take k buf"
  by (auto simp: c_string_def update_NUL_split takeWhile_tail)

lemma c_string_le: "k < length buf \<Longrightarrow> length (c_string (buf[k := NUL])) \<le> k"
proof -
  assume k: "k < length buf"
  have "c_string (buf[k := NUL]) = takeWhile (\<lambda>c. c \<noteq> NUL) (take k buf)"
    using k by (simp add: c_string_def update_NUL_split takeWhile_tail)
  moreover have "length (takeWhile (\<lambda>c. c \<noteq> NUL) (take k buf)) \<le> length (take k buf)"
    by (rule length_takeWhile_le)
  ultimately show ?thesis using k by simp
qed

lemma take_strlen: "take (strlen s) s = c_string s"
  unfolding strlen_def c_string_def by (rule takeWhile_eq_take [symmetric])

lemma c_string_nul_free: "NUL \<notin> set (c_string s)"
  by (auto simp: c_string_def dest: set_takeWhileD)

lemma strlen_le: "strlen s \<le> length s"
  by (simp add: strlen_def c_string_def length_takeWhile_le)

lemma size_t_add_le: "size_t_add a b \<le> a + b"
  by (simp add: size_t_add_def)




lemma scratch_run_len:
  "scratch_run M op g = Inr g' \<Longrightarrow>
     scratch_buffer_len g' \<le> M - 1 \<and> length (scratch_buffer g') = length (scratch_buffer g)"
  by (cases op)
    (auto simp: scratch_buffer_clear_def scratch_buffer_append_def scratch_buffer_append_len_def
      scratch_buffer_append_char_def length_memcpy size_t_add_def add.commute split: if_splits)

lemma nul_free_prefix:
  "NUL \<notin> set (take b xs) \<Longrightarrow> a \<le> b \<Longrightarrow> NUL \<notin> set (take a xs)"
  using set_take_subset_set_take [of a b xs] by auto

lemma append_len_nul_free:
  assumes "scratch_buffer_append_len M s n g = Inr g'"
    "nul_free g" "n \<le> length s" "NUL \<notin> set (take n s)"
  shows "nul_free g'"
proof -
  have le: "scratch_buffer_len g + n \<le> length (scratch_buffer g)"
    and g': "g' = g\<lparr>scratch_buffer := memcpy (scratch_buffer g) (scratch_buffer_len g) s n,
                  scratch_buffer_len := size_t_add (scratch_buffer_len g) n\<rparr>"
    using assms(1) by (auto simp: scratch_buffer_append_len_def split: if_splits)
  have "take (scratch_buffer_len g + n) (memcpy (scratch_buffer g) (scratch_buffer_len g) s n)
      = take (scratch_buffer_len g) (scratch_buffer g) @ take n s"
    using le assms(3) by (intro memcpy_content) auto
  then have "NUL \<notin> set (take (scratch_buffer_len g + n)
      (memcpy (scratch_buffer g) (scratch_buffer_len g) s n))"
    using assms(2,4) by (simp add: nul_free_def)
  then show ?thesis
    using nul_free_prefix [OF _ size_t_add_le [of "scratch_buffer_len g" n]]
    by (simp add: nul_free_def g')
qed

lemma append_char_nul_free:
  assumes "scratch_buffer_append_char M c g = Inr g'" "nul_free g" "c \<noteq> NUL"
  shows "nul_free g'"
proof -
  have lt: "scratch_buffer_len g < length (scratch_buffer g)"
    and g': "g' = g\<lparr>scratch_buffer := (scratch_buffer g)[scratch_buffer_len g := c],
                  scratch_buffer_len := size_t_add (scratch_buffer_len g) 1\<rparr>"
    using assms(1) by (auto simp: scratch_buffer_append_char_def split: if_splits)
  have "NUL \<notin> set (take (scratch_buffer_len g + 1) ((scratch_buffer g)[scratch_buffer_len g := c]))"
    using lt assms(2,3) by (simp add: nul_free_def take_Suc_conv_app_nth)
  then show ?thesis
    using nul_free_prefix [OF _ size_t_add_le [of "scratch_buffer_len g" 1]]
    by (simp add: nul_free_def g')
qed

lemma scratch_run_nul_free:
  assumes "scratch_run M op g = Inr g'" "length (scratch_buffer g) = M"
    "nul_free g" "nul_free_payload op"
  shows "nul_free g'"
proof (cases op)
  case Clear
  then show ?thesis using assms by (auto simp: nul_free_def scratch_buffer_clear_def)
next
  case (Append s)
  then show ?thesis
    using assms append_len_nul_free [of M s "strlen s" g g']
    by (simp add: scratch_buffer_append_def strlen_le take_strlen c_string_nul_free)
next
  case (Append_len s n)
  then show ?thesis using assms append_len_nul_free [of M s n g g'] by simp
next
  case (Append_char c)
  then show ?thesis using assms append_char_nul_free [of M c g g'] by simp
qed




text \<open>
  C10, as stated, fails where a NUL is appended: after \<^verbatim>\<open>scratch_buffer_append_char('\0')\<close>
  on the empty buffer the length is 1, and the string that \<^verbatim>\<open>scratch_buffer_to_string\<close>
  returns has length 0.
\<close>

theorem scratch_buffer_to_string_length_counterexample:
  "scratch_run 4 (Append_char NUL) g4 = Inr (g4\<lparr>scratch_buffer_len := 1\<rparr>)
   \<and> scratch_buffer_len (g4\<lparr>scratch_buffer_len := 1\<rparr>) = 1
   \<and> map_option (\<lambda>r. length (fst r)) (scratch_buffer_to_string (g4\<lparr>scratch_buffer_len := 1\<rparr>))
       = Some 0"
  by (simp add: scratch_buffer_append_char_def g4_def scratch_buffer_to_string_def c_string_def
      size_t_add_def SIZE_MAX_def)

text \<open>
  C10, amended. After every operation on the scratch buffer that returns,
  \<open>scratch_buffer_len \<le> MAX_STRING_BUFFER - 1\<close>; so, the array having
  \<open>MAX_STRING_BUFFER\<close> characters, the terminator that \<^verbatim>\<open>scratch_buffer_to_string\<close> writes is
  inside the array. The string returned is never longer than \<open>scratch_buffer_len\<close>, and
  has exactly that length when no character in use is NUL, which the operations preserve
  for payloads without NUL (\<^verbatim>\<open>scratch_buffer_append\<close> copies no NUL at all).
\<close>

theorem scratch_buffer_to_string_in_bounds:
  assumes "scratch_run M op g = Inr g'" and "length (scratch_buffer g) = M" and "0 < M"
  shows "scratch_buffer_len g' \<le> M - 1
    \<and> (\<exists>s g''. scratch_buffer_to_string g' = Some (s, g'')
          \<and> length s \<le> scratch_buffer_len g'
          \<and> (nul_free g' \<longrightarrow> length s = scratch_buffer_len g'))
    \<and> (nul_free g \<and> nul_free_payload op \<longrightarrow> nul_free g')"
proof -
  have len: "scratch_buffer_len g' \<le> M - 1" and size: "length (scratch_buffer g') = M"
    using scratch_run_len [OF assms(1)] assms(2) by simp_all
  then have lt: "scratch_buffer_len g' < length (scratch_buffer g')"
    using assms(3) by simp
  have "nul_free g' \<longrightarrow> length (c_string ((scratch_buffer g')[scratch_buffer_len g' := NUL]))
      = scratch_buffer_len g'"
    using lt by (simp add: nul_free_def c_string_terminated)
  then show ?thesis
    using len lt c_string_le [OF lt] scratch_run_nul_free [OF assms(1,2)]
    by (simp add: scratch_buffer_to_string_def Let_def)
qed

theorem scratch_buffer_to_string_in_bounds_witness:
  "scratch_run 4 (Append ''ab'') g4
     = Inr (g4\<lparr>scratch_buffer := [CHR ''a'', CHR ''b'', NUL, NUL], scratch_buffer_len := 2\<rparr>)
   \<and> (\<exists>s g''. scratch_buffer_to_string
        (g4\<lparr>scratch_buffer := [CHR ''a'', CHR ''b'', NUL, NUL], scratch_buffer_len := 2\<rparr>)
          = Some (s, g'') \<and> length s = 2)"
  using scratch_buffer_to_string_in_bounds [of 4 "Append ''ab''" g4
      "g4\<lparr>scratch_buffer := [CHR ''a'', CHR ''b'', NUL, NUL], scratch_buffer_len := 2\<rparr>"]
  by (auto simp: scratch_buffer_append_def scratch_buffer_append_len_def strlen_def c_string_def
      g4_def nul_free_def NUL_def size_t_add_def SIZE_MAX_def)

section \<open>Source lists\<close>

lemma name_shapes:
  "nm = [] \<or> (\<exists>a. nm = [a]) \<or> (\<exists>a b. nm = [a, b]) \<or> (\<exists>xs a b c. nm = xs @ [a, b, c])"
proof (cases nm rule: rev_cases)
  case Nil
  then show ?thesis by simp
next
  case (snoc ys c)
  show ?thesis
  proof (cases ys rule: rev_cases)
    case Nil
    with snoc show ?thesis by simp
  next
    case (snoc zs b) note s2 = this
    show ?thesis
    proof (cases zs rule: rev_cases)
      case Nil
      with s2 \<open>nm = ys @ [c]\<close> show ?thesis by simp
    next
      case (snoc ws a)
      with s2 \<open>nm = ys @ [c]\<close> show ?thesis by simp
    qed
  qed
qed

lemma expand_0: "expand_source_name E [] files = Inl (invalid_name [])"
  by (simp add: expand_source_name_def)

lemma expand_1:
  "expand_source_name E [a] files
     = (if a = CHR ''*'' then Inr (files @ file_add_wildcard_files E [] False)
        else Inl (invalid_name [a]))"
  by (simp add: expand_source_name_def)

lemma expand_2:
  "expand_source_name E [a, b] files
     = (if b = CHR ''*'' then
          (if a = CHR ''/'' then Inr (files @ file_add_wildcard_files E [a] False)
           else if a = CHR ''*'' then Inr (files @ file_add_wildcard_files E [] True)
           else Inl (invalid_name [a, b]))
        else Inl (invalid_name [a, b]))"
  by (simp add: expand_source_name_def)

lemma expand_3:
  "expand_source_name E (xs @ [a, b, c]) files
     = (if c = CHR ''*'' then
          (if b = CHR ''/'' then Inr (files @ file_add_wildcard_files E (xs @ [a, b]) False)
           else if b \<noteq> CHR ''*'' then Inl (invalid_name (xs @ [a, b, c]))
           else if a = CHR ''/'' then Inr (files @ file_add_wildcard_files E (xs @ [a]) True)
           else Inl (invalid_name (xs @ [a, b, c])))
        else if xs = [] then Inl (invalid_name (xs @ [a, b, c]))
        else if [a, b, c] \<noteq> ''.c3'' then Inl (invalid_name (xs @ [a, b, c]))
        else Inr (files @ [xs @ [a, b, c]]))"
  by (simp add: expand_source_name_def Let_def nth_append)

lemma plain_shapes:
  "plain_wildcard [] = False"
  "plain_wildcard [a] = (a = CHR ''*'')"
  "plain_wildcard [a, b] = (a = CHR ''/'' \<and> b = CHR ''*'')"
  "plain_wildcard (xs @ [a, b, c]) = (b = CHR ''/'' \<and> c = CHR ''*'')"
  by (simp_all add: plain_wildcard_def ends_with_def)

lemma recursive_shapes:
  "recursive_wildcard [] = False"
  "recursive_wildcard [a] = False"
  "recursive_wildcard [a, b] = (a = CHR ''*'' \<and> b = CHR ''*'')"
  "recursive_wildcard (xs @ [a, b, c]) = (a = CHR ''/'' \<and> b = CHR ''*'' \<and> c = CHR ''*'')"
  by (simp_all add: recursive_wildcard_def ends_with_def)

lemma c3_shapes:
  "ends_with ''.c3'' [] = False"
  "ends_with ''.c3'' [a] = False"
  "ends_with ''.c3'' [a, b] = False"
  "ends_with ''.c3'' (xs @ [a, b, c]) = ([a, b, c] = ''.c3'')"
  by (simp_all add: ends_with_def)

lemma star_shapes:
  "ends_with ''*'' [] = False"
  "ends_with ''*'' [a] = (a = CHR ''*'')"
  "ends_with ''*'' [a, b] = (b = CHR ''*'')"
  "ends_with ''*'' (xs @ [a, b, c]) = (c = CHR ''*'')"
  by (simp_all add: ends_with_def)

lemma expand_plain:
  "plain_wildcard nm \<Longrightarrow>
   expand_source_name E nm files = Inr (files @ file_add_wildcard_files E (butlast nm) False)"
  using name_shapes [of nm]
  by (elim disjE exE) (simp_all add: plain_shapes expand_0 expand_1 expand_2 expand_3 butlast_append)

lemma expand_recursive:
  "recursive_wildcard nm \<Longrightarrow>
   expand_source_name E nm files
     = Inr (files @ file_add_wildcard_files E (butlast (butlast nm)) True)"
  using name_shapes [of nm]
  by (elim disjE exE)
    (simp_all add: recursive_shapes expand_0 expand_1 expand_2 expand_3 butlast_append)

lemma one_le_length: "(Suc 0 \<le> length xs) = (xs \<noteq> [])"
  by (cases xs) simp_all

lemma expand_other:
  "\<not> plain_wildcard nm \<Longrightarrow> \<not> recursive_wildcard nm \<Longrightarrow>
   expand_source_name E nm files
     = (if 4 \<le> length nm \<and> ends_with ''.c3'' nm then Inr (files @ [nm]) else Inl (invalid_name nm))"
  using name_shapes [of nm]
  by (elim disjE exE)
    (simp_all add: plain_shapes recursive_shapes c3_shapes expand_0 expand_1 expand_2 expand_3
      one_le_length)

lemma star_not_c3: "ends_with ''*'' nm \<Longrightarrow> \<not> ends_with ''.c3'' nm"
  using name_shapes [of nm]
  by (elim disjE exE) (simp_all add: star_shapes c3_shapes)

lemma expand_source_name_exit:
  "expand_source_name E nm files = Inl e \<Longrightarrow> e = invalid_name nm"
  by (cases "plain_wildcard nm"; cases "recursive_wildcard nm")
    (auto simp: expand_plain expand_recursive expand_other split: if_splits)

lemma expand_source_names_exit:
  "expand_source_names E srcs files = Inl e \<Longrightarrow> \<exists>nm \<in> set srcs. e = invalid_name nm"
  by (induction srcs arbitrary: files)
    (auto split: sum.splits dest: expand_source_name_exit)

lemma compile_invalid_name:
  assumes "target_expand_source_names E target = Inl e"
  shows "nonzero_exit e
    \<and> compile E target g = Some (Inl (e, (g\<lparr>sources := target_sources target\<rparr>, [])))"
proof -
  from assms obtain nm where "e = invalid_name nm"
    by (auto simp: target_expand_source_names_def split: sum.splits
        dest: expand_source_names_exit)
  then show ?thesis
    using assms by (simp add: compile_def invalid_name_def)
qed

lemma plain_not_recursive: "plain_wildcard nm \<Longrightarrow> \<not> recursive_wildcard nm"
  using name_shapes [of nm]
  by (elim disjE exE) (simp_all add: plain_shapes recursive_shapes)

lemma expand_source_name_eq:
  "expand_source_name E nm files
     = (if accepted_name nm then Inr (files @ expansion E nm) else Inl (invalid_name nm))"
  using plain_not_recursive [of nm]
  by (cases "plain_wildcard nm"; cases "recursive_wildcard nm")
    (simp_all add: accepted_name_def expansion_def expand_plain expand_recursive expand_other)

lemma expand_source_names_accepted:
  "list_all accepted_name srcs \<Longrightarrow>
   expand_source_names E srcs files = Inr (files @ concat (map (expansion E) srcs))"
  by (induction srcs arbitrary: files) (simp_all add: expand_source_name_eq)

lemma expand_source_names_rejected:
  "list_all accepted_name pre \<Longrightarrow> \<not> accepted_name nm \<Longrightarrow>
   expand_source_names E (pre @ nm # post) files = Inl (invalid_name nm)"
  by (induction pre arbitrary: files) (simp_all add: expand_source_name_eq)

lemma target_expand_accepted:
  "list_all accepted_name (target_sources target) \<Longrightarrow>
   target_expand_source_names E target
     = Inr (target\<lparr>target_sources := concat (map (expansion E) (target_sources target))\<rparr>)"
  by (simp add: target_expand_source_names_def expand_source_names_accepted)

lemma target_expand_rejected:
  "target_sources target = pre @ nm # post \<Longrightarrow> list_all accepted_name pre \<Longrightarrow>
   \<not> accepted_name nm \<Longrightarrow> target_expand_source_names E target = Inl (invalid_name nm)"
  by (simp add: target_expand_source_names_def expand_source_names_rejected)

text \<open>
  C5. An entry that is \<open>*\<close> or ends in \<open>/*\<close> adds the files of the directory named
  before the star, without recursion; one that is \<open>**\<close> or ends in \<open>/**\<close> adds
  them recursively. Any other entry is accepted only if it ends in \<open>.c3\<close> (and then
  exactly when it has four characters or more); every other entry, among them every other
  entry ending in a star, leaves with the message of an invalid name.
  \<^verbatim>\<open>target_expand_source_names\<close> does this for every entry, first to last: when all are
  accepted it returns with the target's sources replaced by the files of the entries, in
  the order of the entries, and otherwise it leaves with the message for the first entry
  that is not accepted. \<^verbatim>\<open>compile\<close> then leaves with a non-zero status before it has loaded
  or parsed anything: the context is the one it was given but for the list of sources, and
  no pass has run.
\<close>

theorem source_name_shapes:
  "(plain_wildcard nm \<longrightarrow>
      expand_source_name E nm files = Inr (files @ file_add_wildcard_files E (butlast nm) False))
   \<and> (recursive_wildcard nm \<longrightarrow>
      expand_source_name E nm files
        = Inr (files @ file_add_wildcard_files E (butlast (butlast nm)) True))
   \<and> (\<not> plain_wildcard nm \<and> \<not> recursive_wildcard nm \<longrightarrow>
        (\<forall>fs. expand_source_name E nm files = Inr fs \<longrightarrow> ends_with ''.c3'' nm \<and> fs = files @ [nm])
        \<and> (\<not> ends_with ''.c3'' nm \<or> ends_with ''*'' nm \<longrightarrow>
             expand_source_name E nm files = Inl (invalid_name nm))
        \<and> (expand_source_name E nm files = Inr (files @ [nm])) = (4 \<le> length nm \<and> ends_with ''.c3'' nm))
   \<and> (list_all accepted_name (target_sources target) \<longrightarrow>
        target_expand_source_names E target
          = Inr (target\<lparr>target_sources := concat (map (expansion E) (target_sources target))\<rparr>))
   \<and> (\<forall>pre bad post.
        target_sources target = pre @ bad # post \<and> list_all accepted_name pre
          \<and> \<not> accepted_name bad \<longrightarrow>
        target_expand_source_names E target = Inl (invalid_name bad))
   \<and> (\<forall>e. target_expand_source_names E target = Inl e \<longrightarrow>
        nonzero_exit e
        \<and> compile E target g = Some (Inl (e, (g\<lparr>sources := target_sources target\<rparr>, []))))"
proof -
  have "(plain_wildcard nm \<longrightarrow>
      expand_source_name E nm files = Inr (files @ file_add_wildcard_files E (butlast nm) False))
   \<and> (recursive_wildcard nm \<longrightarrow>
      expand_source_name E nm files
        = Inr (files @ file_add_wildcard_files E (butlast (butlast nm)) True))
   \<and> (\<not> plain_wildcard nm \<and> \<not> recursive_wildcard nm \<longrightarrow>
        (\<forall>fs. expand_source_name E nm files = Inr fs \<longrightarrow> ends_with ''.c3'' nm \<and> fs = files @ [nm])
        \<and> (\<not> ends_with ''.c3'' nm \<or> ends_with ''*'' nm \<longrightarrow>
             expand_source_name E nm files = Inl (invalid_name nm))
        \<and> (expand_source_name E nm files = Inr (files @ [nm])) = (4 \<le> length nm \<and> ends_with ''.c3'' nm))"
    using star_not_c3 [of nm]
    by (auto simp: expand_plain expand_recursive expand_other)
  moreover have "list_all accepted_name (target_sources target) \<longrightarrow>
        target_expand_source_names E target
          = Inr (target\<lparr>target_sources := concat (map (expansion E) (target_sources target))\<rparr>)"
    by (simp add: target_expand_accepted)
  moreover have "\<forall>pre bad post.
        target_sources target = pre @ bad # post \<and> list_all accepted_name pre
          \<and> \<not> accepted_name bad \<longrightarrow>
        target_expand_source_names E target = Inl (invalid_name bad)"
    using target_expand_rejected by blast
  moreover have "\<forall>e. target_expand_source_names E target = Inl e \<longrightarrow>
        nonzero_exit e
        \<and> compile E target g = Some (Inl (e, (g\<lparr>sources := target_sources target\<rparr>, [])))"
    by (simp add: compile_invalid_name)
  ultimately show ?thesis
    by blast
qed

theorem source_name_shapes_witness:
  "plain_wildcard ''src/*'' \<and> recursive_wildcard ''src/**''
   \<and> expand_source_name E0 ''src/*'' [] = Inr [''src/a.c3'']
   \<and> expand_source_name E0 ''src/**'' [] = Inr [''src/a.c3'', ''src/sub/c.c3'']
   \<and> expand_source_name E0 ''main.c3'' [] = Inr [''main.c3'']
   \<and> expand_source_name E0 ''main.c'' [] = Inl (invalid_name ''main.c'')
   \<and> expand_source_name E0 ''src*'' [] = Inl (invalid_name ''src*'')
   \<and> list_all accepted_name [''src/**'', ''main.c3'']
   \<and> target_expand_source_names E0 (two_files\<lparr>target_sources := [''src/**'', ''main.c3'']\<rparr>)
       = Inr (two_files\<lparr>target_sources := [''src/a.c3'', ''src/sub/c.c3'', ''main.c3'']\<rparr>)
   \<and> list_all accepted_name [''a.c3''] \<and> \<not> accepted_name ''b.txt''
   \<and> target_expand_source_names E0 (two_files\<lparr>target_sources := [''a.c3'', ''b.txt'', ''c'']\<rparr>)
       = Inl (invalid_name ''b.txt'')
   \<and> compile E0 (two_files\<lparr>target_sources := [''a.c3'', ''b.txt'', ''c'']\<rparr>) g4
       = Some (Inl (invalid_name ''b.txt'', (g4\<lparr>sources := [''a.c3'', ''b.txt'', ''c'']\<rparr>, [])))"
proof -
  have p: "plain_wildcard ''src/*''" and r: "recursive_wildcard ''src/**''"
    by (simp_all add: plain_wildcard_def recursive_wildcard_def ends_with_def)
  have n: "\<not> plain_wildcard ''main.c3'' \<and> \<not> recursive_wildcard ''main.c3''"
    "\<not> plain_wildcard ''main.c'' \<and> \<not> recursive_wildcard ''main.c''"
    "\<not> plain_wildcard ''src*'' \<and> \<not> recursive_wildcard ''src*''"
    by (simp_all add: plain_wildcard_def recursive_wildcard_def ends_with_def)
  have c: "4 \<le> length ''main.c3'' \<and> ends_with ''.c3'' ''main.c3''" "\<not> ends_with ''.c3'' ''main.c''"
    "ends_with ''*'' ''src*''"
    by (simp_all add: ends_with_def)
  have acc: "list_all accepted_name [''src/**'', ''main.c3'']" "list_all accepted_name [''a.c3'']"
    "\<not> accepted_name ''b.txt''"
    by (simp_all add: accepted_name_def plain_wildcard_def recursive_wildcard_def ends_with_def)
  have ex: "concat (map (expansion E0) [''src/**'', ''main.c3''])
      = [''src/a.c3'', ''src/sub/c.c3'', ''main.c3'']"
    by (simp add: expansion_def plain_wildcard_def recursive_wildcard_def ends_with_def E0_def)
  define good where "good = two_files\<lparr>target_sources := [''src/**'', ''main.c3'']\<rparr>"
  define bad where "bad = two_files\<lparr>target_sources := [''a.c3'', ''b.txt'', ''c'']\<rparr>"
  have good: "target_sources good = [''src/**'', ''main.c3'']"
    "good\<lparr>target_sources := [''src/a.c3'', ''src/sub/c.c3'', ''main.c3'']\<rparr>
       = two_files\<lparr>target_sources := [''src/a.c3'', ''src/sub/c.c3'', ''main.c3'']\<rparr>"
    and bad: "target_sources bad = [''a.c3''] @ ''b.txt'' # [''c'']"
    by (simp_all add: good_def bad_def)
  note T = source_name_shapes [where E = E0 and files = "[]" and g = g4]
  have e1: "expand_source_name E0 ''src/*'' [] = Inr [''src/a.c3'']"
    using T [of "''src/*''" bad] p by (simp add: E0_def)
  have e2: "expand_source_name E0 ''src/**'' [] = Inr [''src/a.c3'', ''src/sub/c.c3'']"
    using T [of "''src/**''" bad] r by (simp add: E0_def)
  have e3: "expand_source_name E0 ''main.c3'' [] = Inr [''main.c3'']"
    using T [of "''main.c3''" bad, unfolded append_Nil] n(1) c(1) by blast
  have e4: "expand_source_name E0 ''main.c'' [] = Inl (invalid_name ''main.c'')"
    using T [of "''main.c''" bad] n(2) c(2) by blast
  have e5: "expand_source_name E0 ''src*'' [] = Inl (invalid_name ''src*'')"
    using T [of "''src*''" bad] n(3) c(3) by blast
  have "target_expand_source_names E0 good
      = Inr (good\<lparr>target_sources := concat (map (expansion E0) (target_sources good))\<rparr>)"
    using T [of "''x''" good] acc(1) good(1) by simp
  then have t1: "target_expand_source_names E0 good
      = Inr (two_files\<lparr>target_sources := [''src/a.c3'', ''src/sub/c.c3'', ''main.c3'']\<rparr>)"
    by (simp only: good ex)
  have t2: "target_expand_source_names E0 bad = Inl (invalid_name ''b.txt'')"
    using T [of "''x''" bad] acc(2,3) bad by blast
  then have "compile E0 bad g4 = Some (Inl (invalid_name ''b.txt'', (g4\<lparr>sources := target_sources bad\<rparr>, [])))"
    using T [of "''x''" bad] by blast
  then have t3: "compile E0 bad g4
      = Some (Inl (invalid_name ''b.txt'', (g4\<lparr>sources := [''a.c3'', ''b.txt'', ''c'']\<rparr>, [])))"
    by (simp add: bad)
  show ?thesis
    using p r e1 e2 e3 e4 e5 acc t1 t2 t3 unfolding good_def bad_def by blast
qed

section \<open>The driver before the analysis\<close>

lemma sources_clear_errors [simp]:
  "sources (global_context_clear_errors g) = sources g"
  "lib_dir (global_context_clear_errors g) = lib_dir g"
  by (simp_all add: global_context_clear_errors_def)

text \<open>
  C4, as stated, fails: \<^verbatim>\<open>vec_add\<close> puts each of the six paths at the end of the list, so
  with the library directory \<open>lib\<close> and the one source \<open>main.c3\<close> the list begins
  with \<open>main.c3\<close>.
\<close>

theorem std_sources_not_prepended:
  "sources (add_std_sources (g4\<lparr>lib_dir := Some ''lib'', sources := [''main.c3'']\<rparr>))
     = [''main.c3'', ''lib/std/runtime.c3'', ''lib/std/builtin.c3'', ''lib/std/io.c3'',
        ''lib/std/mem.c3'', ''lib/std/array.c3'', ''lib/std/math.c3'']
   \<and> sources (add_std_sources (g4\<lparr>lib_dir := Some ''lib'', sources := [''main.c3'']\<rparr>))
     \<noteq> std_sources ''lib'' @ [''main.c3'']"
  by (simp add: add_std_sources_def std_sources_def g4_def)

text \<open>
  C4, amended. When a library directory is configured, \<^verbatim>\<open>compiler_compile\<close> adds the six
  standard-library sources (runtime, builtin, io, mem, array, math, in that order) at the end
  of the list of sources: the list is then the sources it had, followed by the six paths.
  Without a library directory the list is unchanged. The sources are loaded from that list.
\<close>

theorem std_sources_appended:
  "(lib_dir g = Some dir \<longrightarrow>
      sources (add_std_sources (global_context_clear_errors g))
        = sources g @ [dir @ ''/std/runtime.c3'', dir @ ''/std/builtin.c3'', dir @ ''/std/io.c3'',
            dir @ ''/std/mem.c3'', dir @ ''/std/array.c3'', dir @ ''/std/math.c3''])
   \<and> (lib_dir g = None \<longrightarrow> sources (add_std_sources (global_context_clear_errors g)) = sources g)
   \<and> compiler_compile E target g =
       (let loaded = load_sources E (add_std_sources (global_context_clear_errors g))
        in if fst loaded = []
           then Some (Inl (error_exit ''No source files to compile.'', (init_std_module (snd loaded), [])))
           else Option.bind
              (analyze_stages E (ANALYSIS_NOT_BEGUN + 1) (init_std_module (snd loaded), []))
              (\<lambda>r. case r of Inl x \<Rightarrow> Some (Inl x) | Inr c \<Rightarrow> Some (generate E target c)))"
  by (simp add: add_std_sources_def std_sources_def compiler_compile_def Let_def)

theorem std_sources_appended_witness:
  "lib_dir (g4\<lparr>lib_dir := Some ''lib'', sources := [''main.c3'']\<rparr>) = Some ''lib''
   \<and> sources (add_std_sources (global_context_clear_errors
        (g4\<lparr>lib_dir := Some ''lib'', sources := [''main.c3'']\<rparr>)))
     = [''main.c3'', ''lib/std/runtime.c3'', ''lib/std/builtin.c3'', ''lib/std/io.c3'',
        ''lib/std/mem.c3'', ''lib/std/array.c3'', ''lib/std/math.c3'']"
  using std_sources_appended [of "g4\<lparr>lib_dir := Some ''lib'', sources := [''main.c3'']\<rparr>" "''lib''"]
  by (simp add: g4_def)

lemma expand_no_sources:
  "target_sources target = [] \<Longrightarrow> target_expand_source_names E target = Inr target"
  by (simp add: target_expand_source_names_def)

text \<open>
  C9. \<^verbatim>\<open>compile\<close> leaves with the message \<open>No files to compile.\<close> when the expanded list
  of sources is empty, as it is for an empty list of sources; \<^verbatim>\<open>compiler_compile\<close> leaves
  with \<open>No source files to compile.\<close> when the loop over the sources made no context. In
  both cases the status is non-zero and the trace is empty: no pass has run.
\<close>

theorem no_files_exit:
  "(\<forall>t. target_expand_source_names E target = Inr t \<and> target_sources t = [] \<longrightarrow>
       compile E target g
         = Some (Inl (error_exit ''No files to compile.'', (g\<lparr>sources := target_sources target\<rparr>, []))))
   \<and> (target_sources target = [] \<longrightarrow>
       compile E target g = Some (Inl (error_exit ''No files to compile.'', (g\<lparr>sources := []\<rparr>, []))))
   \<and> (fst (load_sources E (add_std_sources (global_context_clear_errors g))) = [] \<longrightarrow>
       (\<exists>g'. compiler_compile E target g
          = Some (Inl (error_exit ''No source files to compile.'', (g', [])))))
   \<and> nonzero_exit (error_exit ''No files to compile.'')
   \<and> nonzero_exit (error_exit ''No source files to compile.'')"
  by (auto simp: compile_def compiler_compile_def Let_def expand_no_sources)

theorem no_files_exit_witness:
  "target_sources (two_files\<lparr>target_sources := []\<rparr>) = []
   \<and> compile E0 (two_files\<lparr>target_sources := []\<rparr>) g4
       = Some (Inl (error_exit ''No files to compile.'', (g4, [])))
   \<and> fst (load_sources E0 (add_std_sources (global_context_clear_errors g4))) = []
   \<and> (\<exists>g'. compiler_compile E0 two_files g4
          = Some (Inl (error_exit ''No source files to compile.'', (g', []))))"
proof -
  have a: "target_sources (two_files\<lparr>target_sources := []\<rparr>) = []"
    by simp
  have b: "fst (load_sources E0 (add_std_sources (global_context_clear_errors g4))) = []"
    by (simp add: load_sources_def add_std_sources_def global_context_clear_errors_def g4_def)
  have c: "g4\<lparr>sources := []\<rparr> = g4"
    by (simp add: g4_def)
  show ?thesis
    using no_files_exit [of E0 "two_files\<lparr>target_sources := []\<rparr>" g4] 
      no_files_exit [of E0 two_files g4] a b c
    by simp
qed

section \<open>Modules and public symbols\<close>

lemma find_or_create_found:
  "global_context_find_module g (module p) = Some m \<Longrightarrow>
   compiler_find_or_create_module p params g = (m, g)"
  by (simp add: compiler_find_or_create_module_def)

lemma find_after_create:
  "global_context_find_module (snd (compiler_find_or_create_module p params g)) (module p)
     = Some (fst (compiler_find_or_create_module p params g))"
  by (auto simp: compiler_find_or_create_module_def global_context_find_module_def stable_get_def
      stable_set_def Let_def split: option.splits)

lemma find_preserved:
  "global_context_find_module g nm = Some m \<Longrightarrow>
   global_context_find_module (snd (compiler_find_or_create_module q ps g)) nm = Some m"
  by (auto simp: compiler_find_or_create_module_def global_context_find_module_def stable_get_def
      stable_set_def Let_def split: option.splits)

lemma find_preserved_all:
  "global_context_find_module g nm = Some m \<Longrightarrow>
   global_context_find_module (find_or_create_all calls g) nm = Some m"
  unfolding find_or_create_all_def
  by (induction calls arbitrary: g) (simp_all add: find_preserved)

text \<open>
  C7, as stated, fails for parameters that are allocated and hold no element: the pointer
  is not null, so a module created with them goes on the generic list, not on
  \<open>module_list\<close>.
\<close>

theorem empty_parameters_on_generic_list:
  "global_context_find_module g4 (module \<lparr>module = ''a'', len = 1\<rparr>) = None
   \<and> generic_module_list
       (snd (compiler_find_or_create_module \<lparr>module = ''a'', len = 1\<rparr> (Some []) g4)) = [0]
   \<and> module_list
       (snd (compiler_find_or_create_module \<lparr>module = ''a'', len = 1\<rparr> (Some []) g4)) = []"
  by (simp add: compiler_find_or_create_module_def global_context_find_module_def stable_get_def
      stable_set_def Let_def g4_def)

text \<open>
  C7, amended. A call of \<^verbatim>\<open>compiler_find_or_create_module\<close> with a name that has no module
  allocates a module of that name at \<^verbatim>\<open>ANALYSIS_NOT_BEGUN\<close> and adds it to the generic list if
  the pointer to the parameters is not null, and to the list of modules if it is null.
  After a call for a name, and after any further calls, every call for that name returns
  the same pointer and leaves the whole context as it is, whatever its parameters.
\<close>

theorem find_or_create_module_idempotent:
  "(global_context_find_module g (module p) = None \<longrightarrow>
      fst (compiler_find_or_create_module p params g) = length (module_heap g)
      \<and> module_heap (snd (compiler_find_or_create_module p params g))
          = module_heap g @ [\<lparr>name = p, stage = ANALYSIS_NOT_BEGUN, parameters = params,
                               symbols = Map.empty, public_symbols = Map.empty\<rparr>]
      \<and> generic_module_list (snd (compiler_find_or_create_module p params g))
          = (if params \<noteq> None then generic_module_list g @ [length (module_heap g)]
             else generic_module_list g)
      \<and> module_list (snd (compiler_find_or_create_module p params g))
          = (if params \<noteq> None then module_list g else module_list g @ [length (module_heap g)]))
   \<and> (\<forall>calls p' params'. module p' = module p \<longrightarrow>
        compiler_find_or_create_module p' params'
            (find_or_create_all calls (snd (compiler_find_or_create_module p params g)))
          = (fst (compiler_find_or_create_module p params g),
             find_or_create_all calls (snd (compiler_find_or_create_module p params g))))"
proof -
  have "compiler_find_or_create_module p' params'
            (find_or_create_all calls (snd (compiler_find_or_create_module p params g)))
          = (fst (compiler_find_or_create_module p params g),
             find_or_create_all calls (snd (compiler_find_or_create_module p params g)))"
    if "module p' = module p" for calls p' params'
    using find_or_create_found [of _ p' _ params']
      find_preserved_all [OF find_after_create [of p params g], of calls] that
    by simp
  then show ?thesis
    by (auto simp: compiler_find_or_create_module_def Let_def stable_init_def)
qed

theorem find_or_create_module_idempotent_witness:
  "global_context_find_module g4 (module \<lparr>module = ''a'', len = 1\<rparr>) = None
   \<and> module \<lparr>module = ''a'', len = 7\<rparr> = module \<lparr>module = ''a'', len = 1\<rparr>
   \<and> fst (compiler_find_or_create_module \<lparr>module = ''a'', len = 1\<rparr> None g4) = 0
   \<and> module_list (snd (compiler_find_or_create_module \<lparr>module = ''a'', len = 1\<rparr> None g4)) = [0]
   \<and> generic_module_list (snd (compiler_find_or_create_module \<lparr>module = ''a'', len = 1\<rparr> None g4)) = []
   \<and> generic_module_list (snd (compiler_find_or_create_module \<lparr>module = ''a'', len = 1\<rparr> (Some [5]) g4)) = [0]
   \<and> compiler_find_or_create_module \<lparr>module = ''a'', len = 7\<rparr> (Some [5])
        (snd (compiler_find_or_create_module \<lparr>module = ''a'', len = 1\<rparr> None g4))
      = compiler_find_or_create_module \<lparr>module = ''a'', len = 1\<rparr> None g4"
proof -
  have a: "global_context_find_module g4 (module \<lparr>module = ''a'', len = 1\<rparr>) = None"
    by (simp add: global_context_find_module_def stable_get_def g4_def)
  have b: "module \<lparr>module = ''a'', len = 7\<rparr> = module \<lparr>module = ''a'', len = 1\<rparr>"
    by simp
  have h: "module_heap g4 = []" "module_list g4 = []" "generic_module_list g4 = []"
    by (simp_all add: g4_def)
  have e: "find_or_create_all [] = (\<lambda>g. g)"
    by (simp add: find_or_create_all_def fun_eq_iff)
  have "compiler_find_or_create_module \<lparr>module = ''a'', len = 7\<rparr> (Some [5])
        (find_or_create_all [] (snd (compiler_find_or_create_module \<lparr>module = ''a'', len = 1\<rparr> None g4)))
      = (fst (compiler_find_or_create_module \<lparr>module = ''a'', len = 1\<rparr> None g4),
          find_or_create_all [] (snd (compiler_find_or_create_module \<lparr>module = ''a'', len = 1\<rparr> None g4)))"
    using find_or_create_module_idempotent [of g4 "\<lparr>module = ''a'', len = 1\<rparr>" None] b by blast
  then have c: "compiler_find_or_create_module \<lparr>module = ''a'', len = 7\<rparr> (Some [5])
        (snd (compiler_find_or_create_module \<lparr>module = ''a'', len = 1\<rparr> None g4))
      = compiler_find_or_create_module \<lparr>module = ''a'', len = 1\<rparr> None g4"
    by (simp add: e)
  show ?thesis
    using find_or_create_module_idempotent [of g4 "\<lparr>module = ''a'', len = 1\<rparr>" None]
      find_or_create_module_idempotent [of g4 "\<lparr>module = ''a'', len = 1\<rparr>" "Some [5]"] a b c h
    by (simp del: Path.simps)
qed

lemma register_global:
  "global_symbols (compiler_register_public_symbol d g)
     = (global_symbols g)(decl_name d \<mapsto>
          (if global_symbols g (decl_name d) = None then self d else poisoned_decl))"
  by (simp add: compiler_register_public_symbol_def Let_def stable_get_def stable_set_def)

lemma register_qualified:
  "qualified_symbols (compiler_register_public_symbol d g)
     = (qualified_symbols g)(module (decl_module d) \<mapsto>
          (case qualified_symbols g (module (decl_module d)) of
             None \<Rightarrow> [decl_name d \<mapsto> self d]
           | Some t \<Rightarrow> t(decl_name d \<mapsto> (if t (decl_name d) = None then self d else poisoned_decl))))"
  by (auto simp: compiler_register_public_symbol_def Let_def stable_get_def stable_set_def
      stable_init_def split: option.splits)

lemma register_find:
  "compiler_find_symbol (compiler_register_public_symbol d g) n
     = (if n = decl_name d
        then Some (if compiler_find_symbol g n = None then self d else poisoned_decl)
        else compiler_find_symbol g n)"
  by (simp add: compiler_find_symbol_def stable_get_def register_global)

lemma register_qualified_symbol:
  "qualified_symbol (compiler_register_public_symbol d g) mn n
     = (if mn = module (decl_module d) \<and> n = decl_name d
        then Some (if qualified_symbol g mn n = None then self d else poisoned_decl)
        else qualified_symbol g mn n)"
  by (auto simp: qualified_symbol_def stable_get_def register_qualified split: option.splits)

lemma register_all_find:
  "compiler_find_symbol (register_all ds g) n
     = (case registrations n ds of
          [] \<Rightarrow> compiler_find_symbol g n
        | d # rest \<Rightarrow>
            Some (if compiler_find_symbol g n = None \<and> rest = [] then self d else poisoned_decl))"
proof (induction ds arbitrary: g)
  case Nil
  then show ?case by (simp add: register_all_def registrations_def)
next
  case (Cons d ds)
  have step: "register_all (d # ds) g = register_all ds (compiler_register_public_symbol d g)"
    by (simp add: register_all_def)
  show ?case
    unfolding step Cons.IH
    by (auto simp: registrations_def register_find split: list.splits)
qed

lemma register_all_qualified:
  "qualified_symbol (register_all ds g) mn n
     = (case registrations_in mn n ds of
          [] \<Rightarrow> qualified_symbol g mn n
        | d # rest \<Rightarrow>
            Some (if qualified_symbol g mn n = None \<and> rest = [] then self d else poisoned_decl))"
proof (induction ds arbitrary: g)
  case Nil
  then show ?case by (simp add: register_all_def registrations_in_def)
next
  case (Cons d ds)
  have step: "register_all (d # ds) g = register_all ds (compiler_register_public_symbol d g)"
    by (simp add: register_all_def)
  show ?case
    unfolding step Cons.IH
    by (auto simp: registrations_in_def register_qualified_symbol split: list.splits)
qed

lemma length_cases:
  "(length xs = 1) = (\<exists>x. xs = [x])" "(2 \<le> length xs) = (\<exists>x y zs. xs = x # y # zs)"
  by (cases xs; cases "tl xs"; simp)+


text \<open>
  C2. \<^verbatim>\<open>compiler_register_public_symbol\<close> stores the declaration under its name in the
  global table when the name has no entry, and the poison sentinel when it has any entry;
  it does the same in the table of the declaration's module, which it creates when the
  module has none. Other names are left alone. So, from tables without the name, and for
  declarations that are not the sentinel itself, a sequence of registrations leaves the
  name without an entry iff it was never registered, with the declaration iff it was
  registered once, and with the sentinel iff it was registered twice or more.
\<close>

theorem register_public_symbol_poisons:
  "compiler_find_symbol (compiler_register_public_symbol d g) (decl_name d)
      = Some (if compiler_find_symbol g (decl_name d) = None then self d else poisoned_decl)
   \<and> qualified_symbol (compiler_register_public_symbol d g) (module (decl_module d)) (decl_name d)
      = Some (if qualified_symbol g (module (decl_module d)) (decl_name d) = None then self d
              else poisoned_decl)
   \<and> (stable_get (qualified_symbols g) (module (decl_module d)) = None \<longrightarrow>
        stable_get (qualified_symbols (compiler_register_public_symbol d g)) (module (decl_module d))
          = Some [decl_name d \<mapsto> self d])
   \<and> (n \<noteq> decl_name d \<longrightarrow>
        compiler_find_symbol (compiler_register_public_symbol d g) n = compiler_find_symbol g n)
   \<and> (mn \<noteq> module (decl_module d) \<or> n \<noteq> decl_name d \<longrightarrow>
        qualified_symbol (compiler_register_public_symbol d g) mn n = qualified_symbol g mn n)
   \<and> (compiler_find_symbol g n = None \<and> (\<forall>x \<in> set ds. self x \<noteq> poisoned_decl) \<longrightarrow>
        (compiler_find_symbol (register_all ds g) n = None) = (registrations n ds = [])
        \<and> (\<exists>p. compiler_find_symbol (register_all ds g) n = Some p \<and> p \<noteq> poisoned_decl)
            = (length (registrations n ds) = 1)
        \<and> (length (registrations n ds) = 1 \<longrightarrow>
             compiler_find_symbol (register_all ds g) n = Some (self (hd (registrations n ds))))
        \<and> (compiler_find_symbol (register_all ds g) n = Some poisoned_decl)
            = (2 \<le> length (registrations n ds)))
   \<and> (qualified_symbol g mn n = None \<and> (\<forall>x \<in> set ds. self x \<noteq> poisoned_decl) \<longrightarrow>
        (qualified_symbol (register_all ds g) mn n = None) = (registrations_in mn n ds = [])
        \<and> (\<exists>p. qualified_symbol (register_all ds g) mn n = Some p \<and> p \<noteq> poisoned_decl)
            = (length (registrations_in mn n ds) = 1)
        \<and> (length (registrations_in mn n ds) = 1 \<longrightarrow>
             qualified_symbol (register_all ds g) mn n = Some (self (hd (registrations_in mn n ds))))
        \<and> (qualified_symbol (register_all ds g) mn n = Some poisoned_decl)
            = (2 \<le> length (registrations_in mn n ds)))"
proof -
  have glob: "(compiler_find_symbol (register_all ds g) n = None) = (registrations n ds = [])
        \<and> (\<exists>p. compiler_find_symbol (register_all ds g) n = Some p \<and> p \<noteq> poisoned_decl)
            = (length (registrations n ds) = 1)
        \<and> (length (registrations n ds) = 1 \<longrightarrow>
             compiler_find_symbol (register_all ds g) n = Some (self (hd (registrations n ds))))
        \<and> (compiler_find_symbol (register_all ds g) n = Some poisoned_decl)
            = (2 \<le> length (registrations n ds))"
    if none: "compiler_find_symbol g n = None" and real: "\<forall>x \<in> set ds. self x \<noteq> poisoned_decl"
  proof -
    have "\<forall>x \<in> set (registrations n ds). self x \<noteq> poisoned_decl"
      using real by (simp add: registrations_def)
    then show ?thesis
      unfolding register_all_find none
      by (cases "registrations n ds"; cases "tl (registrations n ds)") auto
  qed
  have qual: "(qualified_symbol (register_all ds g) mn n = None) = (registrations_in mn n ds = [])
        \<and> (\<exists>p. qualified_symbol (register_all ds g) mn n = Some p \<and> p \<noteq> poisoned_decl)
            = (length (registrations_in mn n ds) = 1)
        \<and> (length (registrations_in mn n ds) = 1 \<longrightarrow>
             qualified_symbol (register_all ds g) mn n = Some (self (hd (registrations_in mn n ds))))
        \<and> (qualified_symbol (register_all ds g) mn n = Some poisoned_decl)
            = (2 \<le> length (registrations_in mn n ds))"
    if none: "qualified_symbol g mn n = None" and real: "\<forall>x \<in> set ds. self x \<noteq> poisoned_decl"
  proof -
    have "\<forall>x \<in> set (registrations_in mn n ds). self x \<noteq> poisoned_decl"
      using real by (simp add: registrations_in_def)
    then show ?thesis
      unfolding register_all_qualified none
      by (cases "registrations_in mn n ds"; cases "tl (registrations_in mn n ds)") auto
  qed
  have lazy: "stable_get (qualified_symbols (compiler_register_public_symbol d g)) (module (decl_module d))
          = Some [decl_name d \<mapsto> self d]"
    if "stable_get (qualified_symbols g) (module (decl_module d)) = None"
    using that by (simp add: stable_get_def register_qualified)
  show ?thesis
    using glob qual lazy
    by (simp add: register_find register_qualified_symbol)
qed

theorem register_public_symbol_poisons_witness:
  "compiler_find_symbol g4 ''foo'' = None \<and> compiler_find_symbol g4 ''bar'' = None
   \<and> self decl_foo \<noteq> poisoned_decl \<and> self decl_bar \<noteq> poisoned_decl
   \<and> compiler_find_symbol (register_all [decl_foo, decl_bar, decl_foo] g4) ''foo'' = Some poisoned_decl
   \<and> compiler_find_symbol (register_all [decl_foo, decl_bar, decl_foo] g4) ''bar'' = Some (Decl_at 2)
   \<and> qualified_symbol (register_all [decl_foo, decl_bar, decl_foo] g4) ''m1'' ''bar'' = Some (Decl_at 2)"
proof -
  let ?ds = "[decl_foo, decl_bar, decl_foo]"
  have none: "compiler_find_symbol g4 ''foo'' = None" "compiler_find_symbol g4 ''bar'' = None"
    "qualified_symbol g4 ''m1'' ''bar'' = None"
    by (simp_all add: compiler_find_symbol_def qualified_symbol_def stable_get_def g4_def)
  have real: "\<forall>x \<in> set ?ds. self x \<noteq> poisoned_decl"
    by (simp add: decl_foo_def decl_bar_def)
  have regs: "registrations ''foo'' ?ds = [decl_foo, decl_foo]"
    "registrations ''bar'' ?ds = [decl_bar]" "registrations_in ''m1'' ''bar'' ?ds = [decl_bar]"
    by (simp_all add: registrations_def registrations_in_def decl_foo_def decl_bar_def)
  have "compiler_find_symbol (register_all ?ds g4) ''foo'' = Some poisoned_decl"
    using register_public_symbol_poisons [of decl_foo g4 "''foo''" "''m1''" ?ds] none real regs
    by simp
  moreover have "compiler_find_symbol (register_all ?ds g4) ''bar'' = Some (Decl_at 2)
      \<and> qualified_symbol (register_all ?ds g4) ''m1'' ''bar'' = Some (Decl_at 2)"
    using register_public_symbol_poisons [of decl_foo g4 "''bar''" "''m1''" ?ds] none real regs
    by (simp add: decl_bar_def)
  ultimately show ?thesis
    using none real by simp
qed

section \<open>Arenas\<close>

lemma calloc_mono: "fst (arena_calloc r a) \<le> fst (arena_calloc r (snd (arena_calloc r' a)))"
  by (cases r; cases r') simp_all

lemma allocations_ge:
  "(r, i) \<in> set (allocations rs a) \<Longrightarrow> fst (arena_calloc r a) \<le> i"
proof (induction rs arbitrary: a)
  case Nil
  then show ?case by simp
next
  case (Cons r' rs)
  then show ?case
    using calloc_mono [of r a r'] by (auto dest: Cons.IH simp del: arena_calloc.simps)
qed

lemma init_arenas:
  "snd (compiler_init f d g)
     = \<lparr>ast_arena = 0, expr_arena = 0, sourceloc_arena = 1, toktype_arena = 1, tokdata_arena = 1,
        decl_arena = 0, type_info_arena = 0\<rparr>"
  by (simp add: compiler_init_def sourceloc_calloc_def toktype_calloc_def tokdata_calloc_def
      vmem_init_def Let_def)

text \<open>
  C8, as stated, fails for the AST arena: \<^verbatim>\<open>compiler_init\<close> allocates nothing from it, so
  the first allocation a client makes from it has index 0.
\<close>

theorem ast_index_zero_allocated:
  "allocations [Ast] (snd (compiler_init None None g4)) = [(Ast, 0)]"
  by (simp add: init_arenas)

text \<open>
  C8, amended. \<^verbatim>\<open>compiler_init\<close> makes one allocation in each of the source-location,
  token-type and token-data arenas and none in the AST, expression, declaration and type-info
  arenas. So index 0 of those three arenas is reserved: no allocation made after
  \<^verbatim>\<open>compiler_init\<close> from one of them returns it.
\<close>

theorem index_zero_reserved:
  "snd (compiler_init f d g)
     = \<lparr>ast_arena = 0, expr_arena = 0, sourceloc_arena = 1, toktype_arena = 1, tokdata_arena = 1,
        decl_arena = 0, type_info_arena = 0\<rparr>
   \<and> (\<forall>(r, i) \<in> set (allocations rs (snd (compiler_init f d g))).
        r \<in> {Sourceloc, Toktype, Tokdata} \<longrightarrow> i \<noteq> 0)"
proof -
  have "i \<noteq> 0" if "(r, i) \<in> set (allocations rs (snd (compiler_init f d g)))"
    and "r \<in> {Sourceloc, Toktype, Tokdata}" for r i
    using allocations_ge [OF that(1)] that(2) by (auto simp: init_arenas)
  then show ?thesis
    using init_arenas by blast
qed

theorem index_zero_reserved_witness:
  "allocations [Sourceloc, Ast, Sourceloc, Tokdata, Toktype] (snd (compiler_init None None g4))
     = [(Sourceloc, 1), (Ast, 0), (Sourceloc, 2), (Tokdata, 1), (Toktype, 1)]"
  using index_zero_reserved [of None None g4 "[Sourceloc, Ast, Sourceloc, Tokdata, Toktype]"]
  by simp

section \<open>The analysis pipeline\<close>

lemmas stage_defs = ANALYSIS_NOT_BEGUN_def ANALYSIS_IMPORTS_def ANALYSIS_REGISTER_GLOBALS_def
  ANALYSIS_CONDITIONAL_COMPILATION_def ANALYSIS_DECLS_def ANALYSIS_CT_ASSERT_def
  ANALYSIS_FUNCTIONS_def ANALYSIS_LAST_def

lemma stage_incr_simps:
  "module_list (stage_incr m g) = module_list g"
  "length (module_heap (stage_incr m g)) = length (module_heap g)"
  "errors_found (stage_incr m g) = errors_found g"
  "modules (stage_incr m g) = modules g"
  by (simp_all add: stage_incr_def)

lemma stage_incr_stage:
  "m < length (module_heap g) \<Longrightarrow>
   module_stage (stage_incr m g) k = (if k = m then module_stage g m + 1 else module_stage g k)"
  by (simp add: stage_incr_def module_stage_def)

lemma wf_stage_incr: "wf_modules g \<Longrightarrow> wf_modules (stage_incr m g)"
  by (simp add: wf_modules_def stage_incr_simps)

text \<open>Where the module is one stage below the target and the pass leaves its stage alone,
  \<^verbatim>\<open>sema_analyze_stage\<close> runs the one pass.\<close>

lemma sema_one_pass:
  assumes "module_stage (fst c) m < target"
    and "\<not> module_stage (fst (sema_step E m c)) m < target"
  shows "sema_analyze_stage E m target c = Some (sema_step E m c)"
  using assms
  by (subst sema_analyze_stage.simps, subst sema_analyze_stage.simps) simp

text \<open>Where the pass leaves errors, \<^verbatim>\<open>sema_analyze_stage\<close> returns after it, whatever the
  stage of the module.\<close>

lemma sema_stops_on_error:
  assumes "module_stage (fst c) m < target"
    and "errors_found (fst (sema_step E m c)) \<noteq> 0"
  shows "sema_analyze_stage E m target c = Some (sema_step E m c)"
  using assms by (subst sema_analyze_stage.simps) simp

lemma sema_at_target:
  "\<not> module_stage (fst c) m < target \<Longrightarrow> sema_analyze_stage E m target c = Some c"
  by (subst sema_analyze_stage.simps) simp

lemma sema_step_eq:
  "sema_step E m (g, tr)
     = (run_pass E (module_stage (stage_incr m g) m) m (stage_incr m g),
        tr @ [Pass m (module_stage (stage_incr m g) m) (listed (stage_incr m g))
                (errors_found (run_pass E (module_stage (stage_incr m g) m) m (stage_incr m g)))])"
  by (simp add: sema_step_def Let_def)

lemma tame_passesD:
  assumes "tame_passes E pending" "wf_modules g"
  shows "wf_modules (run_pass E s m g)"
    and "\<exists>new. module_list (run_pass E s m g) = module_list g @ new
              \<and> (\<forall>k \<in> set new. module_stage (run_pass E s m g) k = ANALYSIS_NOT_BEGUN)
              \<and> length new + pending (modules (run_pass E s m g)) \<le> pending (modules g)"
    and "\<And>k. k \<in> set (module_list g) \<Longrightarrow> module_stage (run_pass E s m g) k = module_stage g k"
  using assms unfolding tame_passes_def by blast+

text \<open>
  One turn of the loop of \<^verbatim>\<open>sema_analyze_stage\<close> with tame passes: the stage of the module
  goes up by one, the other modules of the list keep theirs, and the modules that the pass
  adds are not begun.
\<close>

lemma sema_step_tame:
  assumes tame: "tame_passes E pending" and wf: "wf_modules g"
    and m_in: "m \<in> set (module_list g)"
  shows "\<exists>g2 new. sema_step E m (g, tr)
        = (g2, tr @ [Pass m (module_stage g m + 1) (listed (stage_incr m g)) (errors_found g2)])
      \<and> wf_modules g2
      \<and> module_list g2 = module_list g @ new
      \<and> (\<forall>k \<in> set new. module_stage g2 k = ANALYSIS_NOT_BEGUN)
      \<and> length new + pending (modules g2) \<le> pending (modules g)
      \<and> (\<forall>k \<in> set (module_list g).
            module_stage g2 k = (if k = m then module_stage g m + 1 else module_stage g k))
      \<and> (\<forall>k \<in> set (module_list g).
            module_stage (stage_incr m g) k
              = (if k = m then module_stage g m + 1 else module_stage g k))
      \<and> (errors_only_grow E \<longrightarrow> errors_found g \<le> errors_found g2)"
proof -
  define g1 where "g1 = stage_incr m g"
  define g2 where "g2 = run_pass E (module_stage g m + 1) m g1"
  have m_lt: "m < length (module_heap g)"
    using wf m_in by (simp add: wf_modules_def)
  have g1_stage: "module_stage g1 k = (if k = m then module_stage g m + 1 else module_stage g k)" for k
    using m_lt by (simp add: g1_def stage_incr_stage)
  have wf1: "wf_modules g1" and list1: "module_list g1 = module_list g"
    and mods1: "modules g1 = modules g" and err1: "errors_found g1 = errors_found g"
    using wf by (simp_all add: g1_def wf_stage_incr stage_incr_simps)
  have wf2: "wf_modules g2"
    using tame_passesD(1) [OF tame wf1] by (simp add: g2_def)
  obtain new where list2: "module_list g2 = module_list g @ new"
    and new_stage: "\<forall>k \<in> set new. module_stage g2 k = ANALYSIS_NOT_BEGUN"
    and pend: "length new + pending (modules g2) \<le> pending (modules g)"
    using tame_passesD(2) [OF tame wf1, of "module_stage g m + 1" m]
    by (auto simp: g2_def list1 mods1)
  have old_stage: "\<forall>k \<in> set (module_list g).
      module_stage g2 k = (if k = m then module_stage g m + 1 else module_stage g k)"
    using tame_passesD(3) [OF tame wf1, of _ "module_stage g m + 1" m] g1_stage
    by (simp add: g2_def list1)
  have step: "sema_step E m (g, tr)
      = (g2, tr @ [Pass m (module_stage g m + 1) (listed (stage_incr m g)) (errors_found g2)])"
    using g1_stage [of m] by (simp add: sema_step_eq g1_def [symmetric] g2_def)
  have grow: "errors_only_grow E \<longrightarrow> errors_found g \<le> errors_found g2"
  proof
    assume "errors_only_grow E"
    then have "errors_found g1 \<le> errors_found (run_pass E (module_stage g m + 1) m g1)"
      unfolding errors_only_grow_def by blast
    then show "errors_found g \<le> errors_found g2"
      by (simp add: err1 g2_def)
  qed
  show ?thesis
    using step wf2 list2 new_stage pend old_stage g1_stage grow
    by (intro exI [of _ g2] exI [of _ new]) (simp add: g1_def)
qed









lemma trace_of_generate:
  "\<exists>gens. trace_of (generate E target c) = snd c @ gens \<and> (\<forall>ev \<in> set gens. \<not> is_pass ev)"
  by (auto simp: generate_def Let_def)


lemma not_pass_simps:
  "\<not> is_pass ev \<Longrightarrow> lockstep_event ev \<and> pass_errors ev = 0 \<and> pass_stage ev = 0"
  by (cases ev) (simp_all add: lockstep_event_def)

lemma compiler_compile_no_contexts:
  "contexts E g = [] \<Longrightarrow>
   compiler_compile E target g
     = Some (Inl (error_exit ''No source files to compile.'', (parsed E g, [])))"
  by (simp add: compiler_compile_def parsed_def contexts_def Let_def)

lemma compiler_compile_analysis:
  "contexts E g \<noteq> [] \<Longrightarrow> analyze_stages E 1 (parsed E g, []) = Some r \<Longrightarrow>
   compiler_compile E target g = Some (case r of Inl x \<Rightarrow> Inl x | Inr c \<Rightarrow> generate E target c)"
  by (simp add: compiler_compile_def parsed_def contexts_def Let_def ANALYSIS_NOT_BEGUN_def
      split: sum.splits)


text \<open>
  The loop of \<^verbatim>\<open>sema_analyze_stage\<close> with tame passes, on a module below the target: it
  returns, having run passes on that module only, one at least; all but the last have left
  no error, and with no error left at the end the module has reached the target. Where
  there were errors before, it runs one pass.
\<close>

lemma sema_analyze_stage_tame:
  assumes tame: "tame_passes E pending" and grow: "errors_only_grow E"
  shows "wf_modules g \<Longrightarrow> m \<in> set (module_list g) \<Longrightarrow> module_stage g m < T \<Longrightarrow>
    \<exists>g' evs new. sema_analyze_stage E m T (g, tr) = Some (g', tr @ evs)
      \<and> wf_modules g' \<and> module_list g' = module_list g @ new
      \<and> (\<forall>k \<in> set new. module_stage g' k = ANALYSIS_NOT_BEGUN)
      \<and> length new + pending (modules g') \<le> pending (modules g)
      \<and> (\<forall>k \<in> set (module_list g). k \<noteq> m \<longrightarrow> module_stage g' k = module_stage g k)
      \<and> module_stage g' m \<le> T
      \<and> (errors_found g' = 0 \<longrightarrow> module_stage g' m = T)
      \<and> errors_found g \<le> errors_found g'
      \<and> evs \<noteq> [] \<and> (\<forall>ev \<in> set evs. is_pass ev \<and> pass_module ev = m)
      \<and> (\<forall>ev \<in> set (butlast evs). pass_errors ev = 0)
      \<and> pass_errors (last evs) = errors_found g'
      \<and> (0 < errors_found g \<longrightarrow> length evs = 1)"
proof (induction "T - module_stage g m" arbitrary: g tr rule: less_induct)
  case less
  note wf = \<open>wf_modules g\<close> and m_in = \<open>m \<in> set (module_list g)\<close>
    and below = \<open>module_stage g m < T\<close>
  obtain g2 new where step0: "sema_step E m (g, tr)
      = (g2, tr @ [Pass m (module_stage g m + 1) (listed (stage_incr m g)) (errors_found g2)])"
    and wf2: "wf_modules g2"
    and list2: "module_list g2 = module_list g @ new"
    and new_stage: "\<forall>k \<in> set new. module_stage g2 k = ANALYSIS_NOT_BEGUN"
    and pend: "length new + pending (modules g2) \<le> pending (modules g)"
    and old_stage: "\<forall>k \<in> set (module_list g).
          module_stage g2 k = (if k = m then module_stage g m + 1 else module_stage g k)"
    and grow2: "errors_only_grow E \<longrightarrow> errors_found g \<le> errors_found g2"
    using sema_step_tame [OF tame wf m_in, of tr]
    by (elim exE conjE) (rule that)
  define ev where "ev = Pass m (module_stage g m + 1) (listed (stage_incr m g)) (errors_found g2)"
  have step: "sema_step E m (g, tr) = (g2, tr @ [ev])"
    using step0 by (simp add: ev_def)
  have ev: "is_pass ev" "pass_module ev = m" "pass_errors ev = errors_found g2"
    by (simp_all add: ev_def)
  have m_stage2: "module_stage g2 m = module_stage g m + 1"
    using old_stage m_in by simp
  have others2: "\<forall>k \<in> set (module_list g). k \<noteq> m \<longrightarrow> module_stage g2 k = module_stage g k"
    using old_stage by simp
  have le2: "errors_found g \<le> errors_found g2"
    using grow2 grow by simp
  show ?case
  proof (cases "errors_found g2 \<noteq> 0 \<or> \<not> module_stage g2 m < T")
    case True
    have "sema_analyze_stage E m T (g, tr) = Some (g2, tr @ [ev])"
    proof (cases "errors_found g2 \<noteq> 0")
      case True
      then show ?thesis
        using sema_stops_on_error [of "(g, tr)" m T E] below by (simp add: step)
    next
      case False
      then show ?thesis
        using sema_one_pass [of "(g, tr)" m T E] below True by (simp add: step)
    qed
    moreover have "module_stage g2 m \<le> T"
      using below m_stage2 by simp
    moreover have "errors_found g2 = 0 \<longrightarrow> module_stage g2 m = T"
      using True below m_stage2 by auto
    ultimately show ?thesis
      using wf2 list2 new_stage pend others2 le2 ev
      by (intro exI [of _ g2] exI [of _ "[ev]"] exI [of _ new]) simp
  next
    case False
    then have zero: "errors_found g2 = 0" and below2: "module_stage g2 m < T"
      by simp_all
    have unfold: "sema_analyze_stage E m T (g, tr) = sema_analyze_stage E m T (g2, tr @ [ev])"
      using below zero by (subst sema_analyze_stage.simps) (simp add: step)
    have dec: "T - module_stage g2 m < T - module_stage g m"
      using below m_stage2 by simp
    have m_in2: "m \<in> set (module_list g2)"
      using m_in by (simp add: list2)
    obtain g' evs new' where run: "sema_analyze_stage E m T (g2, tr @ [ev]) = Some (g', (tr @ [ev]) @ evs)"
      and wf': "wf_modules g'" and list': "module_list g' = module_list g2 @ new'"
      and new_stage': "\<forall>k \<in> set new'. module_stage g' k = ANALYSIS_NOT_BEGUN"
      and pend': "length new' + pending (modules g') \<le> pending (modules g2)"
      and others': "\<forall>k \<in> set (module_list g2). k \<noteq> m \<longrightarrow> module_stage g' k = module_stage g2 k"
      and at_most: "module_stage g' m \<le> T"
      and reached: "errors_found g' = 0 \<longrightarrow> module_stage g' m = T"
      and le': "errors_found g2 \<le> errors_found g'"
      and evs: "evs \<noteq> []" "\<forall>ev \<in> set evs. is_pass ev \<and> pass_module ev = m"
        "\<forall>ev \<in> set (butlast evs). pass_errors ev = 0" "pass_errors (last evs) = errors_found g'"
      using less.hyps [OF dec wf2 m_in2 below2, of "tr @ [ev]"]
      by (elim exE conjE) (rule that)
    have "m \<notin> set new"
      using wf2 m_in by (auto simp: wf_modules_def list2)
    then have new_total: "\<forall>k \<in> set (new @ new'). module_stage g' k = ANALYSIS_NOT_BEGUN"
      using new_stage new_stage' others' by (auto simp: list2)
    have others: "\<forall>k \<in> set (module_list g). k \<noteq> m \<longrightarrow> module_stage g' k = module_stage g k"
      using others' others2 by (simp add: list2)
    have no_errors: "\<not> 0 < errors_found g"
      using le2 zero by simp
    show ?thesis
      using run wf' new_total pend pend' others at_most reached le2 le' evs ev zero no_errors
      by (intro exI [of _ g'] exI [of _ "ev # evs"] exI [of _ "new @ new'"])
        (simp add: unfold list' list2)
  qed
qed

lemma one_pass_each_after_shift:
  "one_pass_each_after ms evs j \<Longrightarrow> j < length evs \<Longrightarrow>
   one_pass_each_after ms (pre @ evs) (length pre + j)"
  by (simp add: one_pass_each_after_def nth_append)

lemma one_pass_each_after_tail:
  assumes "map pass_module evs = drop q ms" "list_all is_pass evs" "j < length evs"
  shows "one_pass_each_after ms evs j"
proof -
  have len: "length evs = length ms - q"
    using assms(1) by (metis length_drop length_map)
  then have p: "q + j < length ms"
    using assms(3) by simp
  have "pass_module (evs ! j) = map pass_module evs ! j"
    using assms(3) by simp
  then have at: "ms ! (q + j) = pass_module (evs ! j)"
    using p by (simp add: assms(1))
  have "map pass_module (drop (Suc j) evs) = drop (Suc j) (drop q ms)"
    by (simp add: assms(1) [symmetric] drop_map)
  then have rest: "map pass_module (drop (Suc j) evs) = drop (Suc (q + j)) ms"
    by (simp add: add.commute)
  have "list_all is_pass (drop (Suc j) evs)"
    using assms(2) by (auto simp: list_all_iff dest: in_set_dropD)
  then show ?thesis
    unfolding one_pass_each_after_def using p at rest by (intro bexI [of _ "q + j"]) simp_all
qed

lemma one_pass_each_after_last:
  assumes "evs1 \<noteq> []" "i < length ms" "pass_module (last evs1) = ms ! i"
    "map pass_module evs2 = drop (Suc i) ms" "list_all is_pass evs2"
  shows "one_pass_each_after ms (evs1 @ evs2) (length evs1 - 1)"
proof -
  have "(evs1 @ evs2) ! (length evs1 - 1) = last evs1"
    using assms(1) by (simp add: nth_append last_conv_nth)
  moreover have "drop (Suc (length evs1 - 1)) (evs1 @ evs2) = evs2"
    using assms(1) by simp
  ultimately show ?thesis
    unfolding one_pass_each_after_def using assms(2-5) by (intro bexI [of _ i]) simp_all
qed

text \<open>
  The loop of \<^verbatim>\<open>analyze_to_stage\<close> entered with errors and with the modules from index
  \<open>i\<close> on below the target: it returns, having run one pass on each of them, in the
  order of the list.
\<close>

lemma analyze_modules_failing:
  assumes tame: "tame_passes E pending" and grow: "errors_only_grow E" and pos: "0 < T"
  shows "wf_modules g \<Longrightarrow> 0 < errors_found g \<Longrightarrow> i \<le> length (module_list g) \<Longrightarrow>
    \<forall>k < length (module_list g). i \<le> k \<longrightarrow> module_stage g (module_list g ! k) < T \<Longrightarrow>
    \<exists>g' evs new. analyze_modules E T i (g, tr) = Some (g', tr @ evs) \<and> wf_modules g'
      \<and> module_list g' = module_list g @ new \<and> errors_found g \<le> errors_found g'
      \<and> (\<forall>ev \<in> set evs. is_pass ev \<and> pass_errors ev \<le> errors_found g')
      \<and> map pass_module evs = drop i (module_list g')"
proof (induction "length (module_list g) + pending (modules g) - i" arbitrary: i g tr
    rule: less_induct)
  case less
  note wf = \<open>wf_modules g\<close> and errs = \<open>0 < errors_found g\<close>
    and le = \<open>i \<le> length (module_list g)\<close>
    and stages = \<open>\<forall>k < length (module_list g). i \<le> k \<longrightarrow> module_stage g (module_list g ! k) < T\<close>
  show ?case
  proof (cases "i < length (module_list g)")
    case False
    then have "analyze_modules E T i (g, tr) = Some (g, tr @ [])"
      by (subst analyze_modules.simps) simp
    then show ?thesis
      using wf False le by (intro exI [of _ g] exI [of _ "[]"]) simp
  next
    case True
    define m where "m = module_list g ! i"
    have m_in: "m \<in> set (module_list g)" and below: "module_stage g m < T"
      using True stages by (simp_all add: m_def)
    obtain g2 evs1 new where run1: "sema_analyze_stage E m T (g, tr) = Some (g2, tr @ evs1)"
      and wf2: "wf_modules g2" and list2: "module_list g2 = module_list g @ new"
      and new_stage: "\<forall>k \<in> set new. module_stage g2 k = ANALYSIS_NOT_BEGUN"
      and pend: "length new + pending (modules g2) \<le> pending (modules g)"
      and others: "\<forall>k \<in> set (module_list g). k \<noteq> m \<longrightarrow> module_stage g2 k = module_stage g k"
      and le2: "errors_found g \<le> errors_found g2"
      and evs1: "evs1 \<noteq> []" "\<forall>ev \<in> set evs1. is_pass ev \<and> pass_module ev = m"
        "pass_errors (last evs1) = errors_found g2" "0 < errors_found g \<longrightarrow> length evs1 = 1"
      using sema_analyze_stage_tame [OF tame grow wf m_in below, of tr]
      by (elim exE conjE) (rule that)
    obtain ev where one: "evs1 = [ev]"
      using evs1(4) errs by (cases evs1) auto
    have ev: "is_pass ev" "pass_module ev = m" "pass_errors ev = errors_found g2"
      using evs1 by (simp_all add: one)
    have unfold: "analyze_modules E T i (g, tr) = analyze_modules E T (i + 1) (g2, tr @ [ev])"
      using True by (subst analyze_modules.simps) (simp add: m_def [symmetric] run1 one)
    have dist: "distinct (module_list g)"
      using wf by (simp add: wf_modules_def)
    have stages2: "\<forall>k < length (module_list g2). i + 1 \<le> k \<longrightarrow>
        module_stage g2 (module_list g2 ! k) < T"
    proof (intro allI impI)
      fix k assume k: "k < length (module_list g2)" "i + 1 \<le> k"
      show "module_stage g2 (module_list g2 ! k) < T"
      proof (cases "k < length (module_list g)")
        case old: True
        then have "module_list g ! k \<noteq> m"
          using dist True k(2) by (simp add: m_def nth_eq_iff_index_eq)
        then show ?thesis
          using old others stages k(2) by (simp add: list2 nth_append)
      next
        case False
        then have "module_list g2 ! k \<in> set new"
          using k by (simp add: list2 nth_append)
        then show ?thesis
          using new_stage pos by (simp add: ANALYSIS_NOT_BEGUN_def)
      qed
    qed
    have dec: "length (module_list g2) + pending (modules g2) - (i + 1)
        < length (module_list g) + pending (modules g) - i"
      using True pend by (simp add: list2)
    have i2: "i + 1 \<le> length (module_list g2)" and errs2: "0 < errors_found g2"
      using True le2 errs by (simp_all add: list2)
    obtain g' evs new' where run: "analyze_modules E T (i + 1) (g2, tr @ [ev]) = Some (g', (tr @ [ev]) @ evs)"
      and wf': "wf_modules g'" and list': "module_list g' = module_list g2 @ new'"
      and le': "errors_found g2 \<le> errors_found g'"
      and evs: "\<forall>ev \<in> set evs. is_pass ev \<and> pass_errors ev \<le> errors_found g'"
      and mods: "map pass_module evs = drop (i + 1) (module_list g')"
      using less.hyps [OF dec wf2 errs2 i2 stages2, of "tr @ [ev]"]
      by (elim exE conjE) (rule that)
    have nth_i: "module_list g' ! i = m" and i_lt: "i < length (module_list g')"
      using True by (simp_all add: list' list2 nth_append m_def)
    have drop: "map pass_module (ev # evs) = drop i (module_list g')"
      using mods Cons_nth_drop_Suc [OF i_lt] by (simp add: nth_i ev)
    show ?thesis
      using run wf' le2 le' evs ev drop
      by (intro exI [of _ g'] exI [of _ "ev # evs"] exI [of _ "new @ new'"])
        (simp add: unfold list' list2)
  qed
qed

text \<open>
  The loop of \<^verbatim>\<open>analyze_to_stage\<close> with tame passes, entered with the modules before index
  \<open>i\<close> at the target stage and the others below it: it returns. With no error left
  at the end every module has reached the target; after a pass that has left errors, each
  module that follows in the list has run one pass, and nothing else has run.
\<close>

lemma analyze_modules_tame:
  assumes tame: "tame_passes E pending" and grow: "errors_only_grow E" and pos: "0 < T"
  shows "wf_modules g \<Longrightarrow> i \<le> length (module_list g) \<Longrightarrow>
    \<forall>k < length (module_list g).
       (k < i \<longrightarrow> module_stage g (module_list g ! k) = T)
       \<and> (i \<le> k \<longrightarrow> module_stage g (module_list g ! k) < T) \<Longrightarrow>
    \<exists>g' evs new. analyze_modules E T i (g, tr) = Some (g', tr @ evs) \<and> wf_modules g'
      \<and> module_list g' = module_list g @ new \<and> errors_found g \<le> errors_found g'
      \<and> (\<forall>ev \<in> set evs. is_pass ev \<and> pass_errors ev \<le> errors_found g')
      \<and> (errors_found g' = 0 \<longrightarrow> (\<forall>m \<in> set (module_list g'). module_stage g' m = T))
      \<and> (\<forall>j < length evs. 0 < pass_errors (evs ! j) \<longrightarrow>
            one_pass_each_after (module_list g') evs j)"
proof (induction "length (module_list g) + pending (modules g) - i" arbitrary: i g tr
    rule: less_induct)
  case less
  note wf = \<open>wf_modules g\<close> and le = \<open>i \<le> length (module_list g)\<close>
    and stages = \<open>\<forall>k < length (module_list g).
       (k < i \<longrightarrow> module_stage g (module_list g ! k) = T)
       \<and> (i \<le> k \<longrightarrow> module_stage g (module_list g ! k) < T)\<close>
  show ?case
  proof (cases "i < length (module_list g)")
    case False
    then have i: "i = length (module_list g)" using le by simp
    have "analyze_modules E T i (g, tr) = Some (g, tr @ [])"
      using i by (subst analyze_modules.simps) simp
    moreover have "\<forall>m \<in> set (module_list g). module_stage g m = T"
      using stages i by (auto simp: in_set_conv_nth)
    ultimately show ?thesis
      using wf by (intro exI [of _ g] exI [of _ "[]"]) simp
  next
    case True
    define m where "m = module_list g ! i"
    have m_in: "m \<in> set (module_list g)" and below: "module_stage g m < T"
      using True stages by (simp_all add: m_def)
    obtain g2 evs1 new where run1: "sema_analyze_stage E m T (g, tr) = Some (g2, tr @ evs1)"
      and wf2: "wf_modules g2" and list2: "module_list g2 = module_list g @ new"
      and new_stage: "\<forall>k \<in> set new. module_stage g2 k = ANALYSIS_NOT_BEGUN"
      and pend: "length new + pending (modules g2) \<le> pending (modules g)"
      and others: "\<forall>k \<in> set (module_list g). k \<noteq> m \<longrightarrow> module_stage g2 k = module_stage g k"
      and reached: "errors_found g2 = 0 \<longrightarrow> module_stage g2 m = T"
      and le2: "errors_found g \<le> errors_found g2"
      and evs1: "evs1 \<noteq> []" "\<forall>ev \<in> set evs1. is_pass ev \<and> pass_module ev = m"
        "\<forall>ev \<in> set (butlast evs1). pass_errors ev = 0"
        "pass_errors (last evs1) = errors_found g2"
      using sema_analyze_stage_tame [OF tame grow wf m_in below, of tr]
      by (elim exE conjE) (rule that)
    have unfold: "analyze_modules E T i (g, tr) = analyze_modules E T (i + 1) (g2, tr @ evs1)"
      using True by (subst analyze_modules.simps) (simp add: m_def [symmetric] run1)
    have dist: "distinct (module_list g)"
      using wf by (simp add: wf_modules_def)
    have later: "\<forall>k < length (module_list g2). i + 1 \<le> k \<longrightarrow>
        module_stage g2 (module_list g2 ! k) < T"
    proof (intro allI impI)
      fix k assume k: "k < length (module_list g2)" "i + 1 \<le> k"
      show "module_stage g2 (module_list g2 ! k) < T"
      proof (cases "k < length (module_list g)")
        case old: True
        then have "module_list g ! k \<noteq> m"
          using dist True k(2) by (simp add: m_def nth_eq_iff_index_eq)
        then show ?thesis
          using old others stages k(2) by (simp add: list2 nth_append)
      next
        case False
        then have "module_list g2 ! k \<in> set new"
          using k by (simp add: list2 nth_append)
        then show ?thesis
          using new_stage pos by (simp add: ANALYSIS_NOT_BEGUN_def)
      qed
    qed
    have dec: "length (module_list g2) + pending (modules g2) - (i + 1)
        < length (module_list g) + pending (modules g) - i"
      using True pend by (simp add: list2)
    have i2: "i + 1 \<le> length (module_list g2)"
      using True by (simp add: list2)
    have evs1_le: "\<forall>ev \<in> set evs1. pass_errors ev \<le> errors_found g2"
      using evs1(1,3,4) by (cases evs1 rule: rev_cases) auto
    show ?thesis
    proof (cases "errors_found g2 = 0")
      case zero: True
      have quiet: "\<forall>ev \<in> set evs1. pass_errors ev = 0"
        using evs1_le zero by simp
      have stages2: "\<forall>k < length (module_list g2).
         (k < i + 1 \<longrightarrow> module_stage g2 (module_list g2 ! k) = T)
         \<and> (i + 1 \<le> k \<longrightarrow> module_stage g2 (module_list g2 ! k) < T)"
      proof (intro allI impI conjI)
        fix k assume k: "k < length (module_list g2)" "k < i + 1"
        then have old: "k < length (module_list g)"
          using True by simp
        show "module_stage g2 (module_list g2 ! k) = T"
        proof (cases "k = i")
          case True
          then show ?thesis
            using old reached zero by (simp add: list2 nth_append m_def)
        next
          case False
          then have "module_list g ! k \<noteq> m" "k < i"
            using dist old True k(2) by (simp_all add: m_def nth_eq_iff_index_eq)
          then show ?thesis
            using old others stages by (simp add: list2 nth_append)
        qed
      next
        fix k assume "k < length (module_list g2)" "i + 1 \<le> k"
        then show "module_stage g2 (module_list g2 ! k) < T"
          using later by simp
      qed
      obtain g' evs new' where run: "analyze_modules E T (i + 1) (g2, tr @ evs1) = Some (g', (tr @ evs1) @ evs)"
        and wf': "wf_modules g'" and list': "module_list g' = module_list g2 @ new'"
        and le': "errors_found g2 \<le> errors_found g'"
        and evs: "\<forall>ev \<in> set evs. is_pass ev \<and> pass_errors ev \<le> errors_found g'"
        and reach: "errors_found g' = 0 \<longrightarrow> (\<forall>m \<in> set (module_list g'). module_stage g' m = T)"
        and after: "\<forall>j < length evs. 0 < pass_errors (evs ! j) \<longrightarrow>
            one_pass_each_after (module_list g') evs j"
        using less.hyps [OF dec wf2 i2 stages2, of "tr @ evs1"]
        by (elim exE conjE) (rule that)
      have after_all: "one_pass_each_after (module_list g') (evs1 @ evs) j"
        if j: "j < length (evs1 @ evs)" and err: "0 < pass_errors ((evs1 @ evs) ! j)" for j
      proof -
        have ge: "\<not> j < length evs1"
          using err quiet by (auto simp: nth_append)
        define j' where "j' = j - length evs1"
        have j': "j' < length evs" "j = length evs1 + j'" "(evs1 @ evs) ! j = evs ! j'"
          using ge j by (simp_all add: j'_def nth_append)
        then have "one_pass_each_after (module_list g') evs j'"
          using after err by simp
        then show ?thesis
          using one_pass_each_after_shift [of "module_list g'" evs j' evs1] j' by simp
      qed
      have le_all: "\<forall>ev \<in> set (evs1 @ evs). is_pass ev \<and> pass_errors ev \<le> errors_found g'"
        using evs evs1(2) quiet by auto
      show ?thesis
        using run wf' le2 le' le_all reach after_all
        by (intro exI [of _ g'] exI [of _ "evs1 @ evs"] exI [of _ "new @ new'"])
          (simp add: unfold list' list2)
    next
      case False
      then have errs2: "0 < errors_found g2"
        by simp
      obtain g' evs new' where run: "analyze_modules E T (i + 1) (g2, tr @ evs1) = Some (g', (tr @ evs1) @ evs)"
        and wf': "wf_modules g'" and list': "module_list g' = module_list g2 @ new'"
        and le': "errors_found g2 \<le> errors_found g'"
        and evs: "\<forall>ev \<in> set evs. is_pass ev \<and> pass_errors ev \<le> errors_found g'"
        and mods: "map pass_module evs = drop (i + 1) (module_list g')"
        using analyze_modules_failing [OF tame grow pos wf2 errs2 i2 later, of "tr @ evs1"]
        by (elim exE conjE) (rule that)
      have nth_i: "module_list g' ! i = m" and i_lt: "i < length (module_list g')"
        using True by (simp_all add: list' list2 nth_append m_def)
      have passes: "list_all is_pass evs"
        using evs by (simp add: list_all_iff)
      have last_m: "pass_module (last evs1) = module_list g' ! i"
        using evs1(1,2) by (simp add: nth_i)
      have mods': "map pass_module evs = drop (Suc i) (module_list g')"
        using mods by simp
      have after_all: "one_pass_each_after (module_list g') (evs1 @ evs) j"
        if j: "j < length (evs1 @ evs)" and err: "0 < pass_errors ((evs1 @ evs) ! j)" for j
      proof (cases "j < length evs1")
        case True
        have "j = length evs1 - 1"
        proof (rule ccontr)
          assume "j \<noteq> length evs1 - 1"
          then have "j < length (butlast evs1)"
            using True by simp
          then have "evs1 ! j \<in> set (butlast evs1)"
            by (metis nth_butlast nth_mem)
          then show False
            using evs1(3) err True by (simp add: nth_append)
        qed
        then show ?thesis
          using one_pass_each_after_last [OF evs1(1) i_lt last_m mods' passes] by simp
      next
        case False
        define j' where "j' = j - length evs1"
        have j': "j' < length evs" "j = length evs1 + j'"
          using False j by (simp_all add: j'_def)
        then show ?thesis
          using one_pass_each_after_shift [OF one_pass_each_after_tail [OF mods' passes j'(1)] j'(1), of evs1]
          by simp
      qed
      have le_all: "\<forall>ev \<in> set (evs1 @ evs). is_pass ev \<and> pass_errors ev \<le> errors_found g'"
        using evs evs1(2) evs1_le le' by auto
      have "errors_found g' \<noteq> 0"
        using errs2 le' by simp
      then show ?thesis
        using run wf' le2 le' le_all after_all
        by (intro exI [of _ g'] exI [of _ "evs1 @ evs"] exI [of _ "new @ new'"])
          (simp add: unfold list' list2)
    qed
  qed
qed

text \<open>
  The loop over the stages with tame passes, entered at stage \<open>T\<close> with every module
  one stage below: it returns or leaves with \<^verbatim>\<open>EXIT_FAILURE\<close>, and it leaves if a pass has
  left errors; after such a pass, each module that follows in the list has run one pass,
  and nothing else has run.
\<close>

lemma analyze_stages_tame:
  assumes tame: "tame_passes E pending" and grow: "errors_only_grow E"
  shows "0 < T \<Longrightarrow> wf_modules g \<Longrightarrow>
    \<forall>m \<in> set (module_list g). module_stage g m = T - 1 \<Longrightarrow>
    \<exists>r evs. analyze_stages E T (g, tr) = Some r \<and> trace_of r = tr @ evs
      \<and> (\<forall>ev \<in> set evs. is_pass ev)
      \<and> ((\<exists>c. r = Inl (exit_code EXIT_FAILURE, c)) \<or> (\<exists>c. r = Inr c))
      \<and> ((\<exists>ev \<in> set evs. 0 < pass_errors ev) \<longrightarrow> (\<exists>c. r = Inl (exit_code EXIT_FAILURE, c)))
      \<and> (\<forall>j < length evs. 0 < pass_errors (evs ! j) \<longrightarrow>
            one_pass_each_after (module_list (context_of r)) evs j)"
proof (induction "ANALYSIS_LAST + 1 - T" arbitrary: T g tr rule: less_induct)
  case less
  note pos = \<open>0 < T\<close> and wf = \<open>wf_modules g\<close>
    and stages = \<open>\<forall>m \<in> set (module_list g). module_stage g m = T - 1\<close>
  show ?case
  proof (cases "T \<le> ANALYSIS_LAST")
    case False
    then have "analyze_stages E T (g, tr) = Some (Inr (g, tr))"
      by (subst analyze_stages.simps) simp
    then show ?thesis
      by (intro exI [of _ "Inr (g, tr)"] exI [of _ "[]"]) simp
  next
    case True
    have st0: "\<forall>k < length (module_list g).
       (k < 0 \<longrightarrow> module_stage g (module_list g ! k) = T)
       \<and> (0 \<le> k \<longrightarrow> module_stage g (module_list g ! k) < T)"
      using stages pos by simp
    have le0: "0 \<le> length (module_list g)"
      by simp
    obtain g' evs1 new where run: "analyze_modules E T 0 (g, tr) = Some (g', tr @ evs1)"
      and wf': "wf_modules g'"
      and evs1: "\<forall>ev \<in> set evs1. is_pass ev \<and> pass_errors ev \<le> errors_found g'"
      and reach: "errors_found g' = 0 \<longrightarrow> (\<forall>m \<in> set (module_list g'). module_stage g' m = T)"
      and after1: "\<forall>j < length evs1. 0 < pass_errors (evs1 ! j) \<longrightarrow>
            one_pass_each_after (module_list g') evs1 j"
      using analyze_modules_tame [OF tame grow pos wf le0 st0, of tr]
      by (elim exE conjE) (rule that)
    have to_stage: "analyze_to_stage E T (g, tr) = Some (halt_on_error (g', tr @ evs1))"
      by (simp add: analyze_to_stage_def run)
    show ?thesis
    proof (cases "0 < errors_found g'")
      case halt: True
      have "analyze_stages E T (g, tr) = Some (Inl (exit_code EXIT_FAILURE, (g', tr @ evs1)))"
        using True halt by (subst analyze_stages.simps) (simp add: to_stage halt_on_error_def)
      then show ?thesis
        using evs1 after1
        by (intro exI [of _ "Inl (exit_code EXIT_FAILURE, (g', tr @ evs1))"] exI [of _ evs1]) simp
    next
      case False
      then have unfold: "analyze_stages E T (g, tr) = analyze_stages E (T + 1) (g', tr @ evs1)"
        using True by (subst analyze_stages.simps) (simp add: to_stage halt_on_error_def)
      have quiet: "\<forall>ev \<in> set evs1. pass_errors ev = 0"
        using evs1 False by simp
      have dec: "ANALYSIS_LAST + 1 - (T + 1) < ANALYSIS_LAST + 1 - T"
        using True by simp
      have pos': "0 < T + 1"
        by simp
      have stage'': "\<forall>m \<in> set (module_list g'). module_stage g' m = T + 1 - 1"
        using reach False by simp
      obtain r evs2 where run2: "analyze_stages E (T + 1) (g', tr @ evs1) = Some r"
        and trace: "trace_of r = (tr @ evs1) @ evs2"
        and evs2: "\<forall>ev \<in> set evs2. is_pass ev"
        and ends: "(\<exists>c. r = Inl (exit_code EXIT_FAILURE, c)) \<or> (\<exists>c. r = Inr c)"
        and errs2: "(\<exists>ev \<in> set evs2. 0 < pass_errors ev) \<longrightarrow> (\<exists>c. r = Inl (exit_code EXIT_FAILURE, c))"
        and after2: "\<forall>j < length evs2. 0 < pass_errors (evs2 ! j) \<longrightarrow>
            one_pass_each_after (module_list (context_of r)) evs2 j"
        using less.hyps [OF dec pos' wf' stage'', of "tr @ evs1"]
        by (elim exE conjE) (rule that)
      have after_all: "one_pass_each_after (module_list (context_of r)) (evs1 @ evs2) j"
        if j: "j < length (evs1 @ evs2)" and err: "0 < pass_errors ((evs1 @ evs2) ! j)" for j
      proof -
        have ge: "\<not> j < length evs1"
          using err quiet by (auto simp: nth_append)
        define j' where "j' = j - length evs1"
        have j': "j' < length evs2" "j = length evs1 + j'" "(evs1 @ evs2) ! j = evs2 ! j'"
          using ge j by (simp_all add: j'_def nth_append)
        then have "one_pass_each_after (module_list (context_of r)) evs2 j'"
          using after2 err by simp
        then show ?thesis
          using one_pass_each_after_shift [of "module_list (context_of r)" evs2 j' evs1] j' by simp
      qed
      have errs: "(\<exists>ev \<in> set (evs1 @ evs2). 0 < pass_errors ev) \<longrightarrow>
          (\<exists>c. r = Inl (exit_code EXIT_FAILURE, c))"
        using errs2 quiet by auto
      have all: "\<forall>ev \<in> set (evs1 @ evs2). is_pass ev"
        using evs1 evs2 by auto
      show ?thesis
        using run2 trace all ends errs after_all
        by (intro exI [of _ r] exI [of _ "evs1 @ evs2"]) (simp add: unfold)
    qed
  qed
qed

text \<open>
  C3, amended. After a pass that leaves \<open>errors_found > 0\<close>, \<^verbatim>\<open>sema_analyze_stage\<close> returns
  at once, whatever the stage of the module and the target: it runs no further pass on
  that module. For tame passes that never lower \<open>errors_found\<close>, a run of
  \<^verbatim>\<open>compiler_compile\<close> ends, and after such a pass it still runs one pass on each module that
  follows in \<open>module_list\<close>, in the order of the list (the loop of \<^verbatim>\<open>analyze_to_stage\<close>
  goes on to the end of the list), and nothing else; then \<^verbatim>\<open>halt_on_error\<close> leaves with
  \<^verbatim>\<open>EXIT_FAILURE\<close>. No generator is called: every event of the trace is a pass.
\<close>

theorem errors_halt_after_stage:
  assumes "tame_passes E pending" and "errors_only_grow E"
    and "wf_modules (parsed E g)" and "not_begun (parsed E g)"
  shows "(\<forall>m T c. module_stage (fst c) m < T \<and> errors_found (fst (sema_step E m c)) \<noteq> 0 \<longrightarrow>
            sema_analyze_stage E m T c = Some (sema_step E m c))
    \<and> (\<exists>r. compiler_compile E target g = Some r
          \<and> (\<forall>i \<in> {..<length (trace_of r)}. 0 < pass_errors (trace_of r ! i) \<longrightarrow>
                (\<exists>c. r = Inl (exit_code EXIT_FAILURE, c)) \<and> exits_nonzero r
                \<and> list_all is_pass (trace_of r)
                \<and> one_pass_each_after (module_list (context_of r)) (trace_of r) i))"
proof (intro conjI)
  show "\<forall>m T c. module_stage (fst c) m < T \<and> errors_found (fst (sema_step E m c)) \<noteq> 0 \<longrightarrow>
            sema_analyze_stage E m T c = Some (sema_step E m c)"
    using sema_stops_on_error by blast
next
  show "\<exists>r. compiler_compile E target g = Some r
          \<and> (\<forall>i \<in> {..<length (trace_of r)}. 0 < pass_errors (trace_of r ! i) \<longrightarrow>
                (\<exists>c. r = Inl (exit_code EXIT_FAILURE, c)) \<and> exits_nonzero r
                \<and> list_all is_pass (trace_of r)
                \<and> one_pass_each_after (module_list (context_of r)) (trace_of r) i)"
  proof (cases "contexts E g = []")
    case True
    show ?thesis
      using compiler_compile_no_contexts [OF True, of target] by simp
  next
    case False
    have st: "\<forall>m \<in> set (module_list (parsed E g)). module_stage (parsed E g) m = 1 - 1"
      using assms(4) by (simp add: not_begun_def ANALYSIS_NOT_BEGUN_def)
    obtain r0 evs where run: "analyze_stages E 1 (parsed E g, []) = Some r0"
      and trace0: "trace_of r0 = [] @ evs"
      and evs: "\<forall>ev \<in> set evs. is_pass ev"
      and ends: "(\<exists>c. r0 = Inl (exit_code EXIT_FAILURE, c)) \<or> (\<exists>c. r0 = Inr c)"
      and errs: "(\<exists>ev \<in> set evs. 0 < pass_errors ev) \<longrightarrow> (\<exists>c. r0 = Inl (exit_code EXIT_FAILURE, c))"
      and after: "\<forall>j < length evs. 0 < pass_errors (evs ! j) \<longrightarrow>
            one_pass_each_after (module_list (context_of r0)) evs j"
      using analyze_stages_tame [OF assms(1,2) zero_less_one assms(3) st, of "[]"]
      by (elim exE conjE) (rule that)
    define r where "r = (case r0 of Inl x \<Rightarrow> Inl x | Inr c \<Rightarrow> generate E target c)"
    have cc: "compiler_compile E target g = Some r"
      using compiler_compile_analysis [OF False run] by (simp add: r_def)
    have "(\<exists>c. r = Inl (exit_code EXIT_FAILURE, c)) \<and> exits_nonzero r
          \<and> list_all is_pass (trace_of r)
          \<and> one_pass_each_after (module_list (context_of r)) (trace_of r) i"
      if i: "i < length (trace_of r)" and err: "0 < pass_errors (trace_of r ! i)" for i
    proof (cases "\<exists>c. r0 = Inl (exit_code EXIT_FAILURE, c)")
      case True
      then obtain c where r0: "r0 = Inl (exit_code EXIT_FAILURE, c)"
        by blast
      then have r: "r = r0" "trace_of r = evs"
        using trace0 by (simp_all add: r_def)
      have "exits_nonzero r"
        by (simp add: r r0 EXIT_FAILURE_def)
      moreover have "list_all is_pass (trace_of r)"
        using evs by (simp add: r(2) list_all_iff)
      moreover have "one_pass_each_after (module_list (context_of r)) (trace_of r) i"
        using after i err by (simp add: r(2)) (simp add: r(1))
      moreover have "\<exists>c. r = Inl (exit_code EXIT_FAILURE, c)"
        using r(1) r0 by simp
      ultimately show ?thesis
        by simp
    next
      case False
      then obtain c where r0: "r0 = Inr c" and quiet: "\<forall>ev \<in> set evs. pass_errors ev = 0"
        using ends errs by auto
      obtain gens where "trace_of (generate E target c) = snd c @ gens"
        "\<forall>ev \<in> set gens. \<not> is_pass ev"
        using trace_of_generate by blast
      then have "trace_of r = evs @ gens" "\<forall>ev \<in> set gens. pass_errors ev = 0"
        using trace0 not_pass_simps by (auto simp: r_def r0)
      then have "\<forall>ev \<in> set (trace_of r). pass_errors ev = 0"
        using quiet by auto
      then have "pass_errors (trace_of r ! i) = 0"
        using i by simp
      then show ?thesis
        using err by simp
    qed
    then show ?thesis
      using cc by (intro exI [of _ r]) simp
  qed
qed

lemmas run_defs = compiler_compile_def global_context_clear_errors_def add_std_sources_def
  load_sources_def load_source_def init_std_module_def compiler_find_or_create_module_def
  global_context_find_module_def stable_get_def stable_set_def stable_init_def
  analyze_stages.simps analyze_to_stage_def analyze_modules.simps sema_analyze_stage.simps
  sema_step_def stage_incr_def module_stage_def listed_def run_pass_def halt_on_error_def
  generate_def stage_defs Let_def EXIT_FAILURE_def EXIT_SUCCESS_def
  E0_def module_of_file_def g_ab_def g4_def two_files_def


text \<open>
  C3, as stated, fails: with two modules and an error reported by the pass of the imports
  on the first, the pass of the imports still runs on the second.
\<close>

theorem pass_runs_after_error:
  "map_option trace_of (compiler_compile E_err two_files g_ab)
     = Some [Pass 0 1 [(0, 1), (1, 0)] 1, Pass 1 1 [(0, 1), (1, 1)] 1]"
  by (simp add: run_defs E_err_def)

lemma create_plain:
  "snd (compiler_find_or_create_module p None g)
     = (case modules g (module p) of
          Some m \<Rightarrow> g
        | None \<Rightarrow> g\<lparr>module_heap := module_heap g @ [\<lparr>name = p, stage = ANALYSIS_NOT_BEGUN,
                        parameters = None, symbols = Map.empty, public_symbols = Map.empty\<rparr>],
                    modules := (modules g)(module p \<mapsto> length (module_heap g)),
                    module_list := module_list g @ [length (module_heap g)]\<rparr>)"
  by (simp add: compiler_find_or_create_module_def global_context_find_module_def stable_get_def
      stable_set_def stable_init_def Let_def split: option.splits)




lemma run_pass_E_lag:
  "run_pass E_lag s m g
     = (if s = ANALYSIS_IMPORTS then (if m = 2 then g\<lparr>errors_found := errors_found g + 1\<rparr> else g)
        else if s = ANALYSIS_REGISTER_GLOBALS
        then snd (compiler_find_or_create_module \<lparr>module = ''later'', len = 5\<rparr> None
               (snd (compiler_find_or_create_module \<lparr>module = ''late'', len = 4\<rparr> None g)))
        else g)"
  by (simp add: run_pass_def E_lag_def E0_def stage_defs)

lemma tame_E_lag: "tame_passes E_lag pending_lag"
  unfolding tame_passes_def run_pass_E_lag create_plain
  by (auto simp: wf_modules_def module_stage_def nth_append pending_lag_def stage_defs
      split: option.splits)

lemma grow_E_lag: "errors_only_grow E_lag"
  unfolding errors_only_grow_def run_pass_E_lag create_plain
  by (auto split: option.splits)

lemma parsed_E_lag:
  "wf_modules (parsed E_lag g_ab)" "not_begun (parsed E_lag g_ab)"
  by (simp_all add: parsed_def run_defs E_lag_def wf_modules_def not_begun_def)


theorem errors_halt_after_stage_witness:
  "tame_passes E_lag pending_lag \<and> errors_only_grow E_lag \<and> wf_modules (parsed E_lag g_ab)
   \<and> not_begun (parsed E_lag g_ab)
   \<and> module_stage (run_pass E_lag 2 0 (parsed E_lag g_ab)) 2 < 6
   \<and> map_option snd
       (sema_analyze_stage E_lag 2 6 (run_pass E_lag 2 0 (parsed E_lag g_ab), []))
       = Some [Pass 2 1 [(0, 0), (1, 0), (2, 1), (3, 0)] 1]
   \<and> (\<exists>r. compiler_compile E_lag two_files g_ab = Some r
         \<and> trace_of r
             = [Pass 0 1 [(0, 1), (1, 0)] 0, Pass 1 1 [(0, 1), (1, 1)] 0,
                Pass 0 2 [(0, 2), (1, 1)] 0, Pass 1 2 [(0, 2), (1, 2), (2, 0), (3, 0)] 0,
                Pass 2 1 [(0, 2), (1, 2), (2, 1), (3, 0)] 1,
                Pass 3 1 [(0, 2), (1, 2), (2, 1), (3, 1)] 1]
         \<and> module_list (context_of r) = [0, 1, 2, 3]
         \<and> 0 < pass_errors (trace_of r ! 4)
         \<and> exits_nonzero r \<and> list_all is_pass (trace_of r)
         \<and> one_pass_each_after [0, 1, 2, 3] (trace_of r) 4)"
proof -
  define c0 where "c0 = (run_pass E_lag 2 0 (parsed E_lag g_ab), [] :: event list)"
  note T = errors_halt_after_stage [OF tame_E_lag grow_E_lag parsed_E_lag, of two_files]
  have stop: "module_stage (fst c0) 2 < 6 \<and> errors_found (fst (sema_step E_lag 2 c0)) \<noteq> 0 \<longrightarrow>
      sema_analyze_stage E_lag 2 6 c0 = Some (sema_step E_lag 2 c0)"
    using T [THEN conjunct1, rule_format, where c = c0 and m = 2 and T = 6] by blast
  have below: "module_stage (fst c0) 2 < 6"
    and step: "sema_step E_lag 2 c0
      = (fst (sema_step E_lag 2 c0), [Pass 2 1 [(0, 0), (1, 0), (2, 1), (3, 0)] 1])"
    and errs: "errors_found (fst (sema_step E_lag 2 c0)) \<noteq> 0"
    by (simp_all add: c0_def parsed_def run_defs E_lag_def)
  have one: "map_option snd (sema_analyze_stage E_lag 2 6 c0)
      = Some [Pass 2 1 [(0, 0), (1, 0), (2, 1), (3, 0)] 1]"
    using stop below errs step by (metis option.simps(9) snd_conv)
  obtain r where run: "compiler_compile E_lag two_files g_ab = Some r"
    and halt: "\<forall>i \<in> {..<length (trace_of r)}. 0 < pass_errors (trace_of r ! i) \<longrightarrow>
                (\<exists>c. r = Inl (exit_code EXIT_FAILURE, c)) \<and> exits_nonzero r
                \<and> list_all is_pass (trace_of r)
                \<and> one_pass_each_after (module_list (context_of r)) (trace_of r) i"
    using T by (elim exE conjE) (rule that)
  have "map_option (\<lambda>r. (trace_of r, module_list (context_of r)))
        (compiler_compile E_lag two_files g_ab)
      = Some ([Pass 0 1 [(0, 1), (1, 0)] 0, Pass 1 1 [(0, 1), (1, 1)] 0,
                Pass 0 2 [(0, 2), (1, 1)] 0, Pass 1 2 [(0, 2), (1, 2), (2, 0), (3, 0)] 0,
                Pass 2 1 [(0, 2), (1, 2), (2, 1), (3, 0)] 1,
                Pass 3 1 [(0, 2), (1, 2), (2, 1), (3, 1)] 1], [0, 1, 2, 3])"
    by (simp add: run_defs E_lag_def)
  then have trace: "trace_of r
             = [Pass 0 1 [(0, 1), (1, 0)] 0, Pass 1 1 [(0, 1), (1, 1)] 0,
                Pass 0 2 [(0, 2), (1, 1)] 0, Pass 1 2 [(0, 2), (1, 2), (2, 0), (3, 0)] 0,
                Pass 2 1 [(0, 2), (1, 2), (2, 1), (3, 0)] 1,
                Pass 3 1 [(0, 2), (1, 2), (2, 1), (3, 1)] 1]"
    and mods: "module_list (context_of r) = [0, 1, 2, 3]"
    by (simp_all add: run)
  have at: "4 \<in> {..<length (trace_of r)}" "0 < pass_errors (trace_of r ! 4)"
    by (simp_all add: trace)
  then have "exits_nonzero r \<and> list_all is_pass (trace_of r)
      \<and> one_pass_each_after (module_list (context_of r)) (trace_of r) 4"
    using halt by blast
  then show ?thesis
    using run trace mods at(2) one below tame_E_lag grow_E_lag parsed_E_lag
    unfolding c0_def fst_conv by (intro conjI exI [of _ r]) simp_all
qed

end
